theory Spec2Isabelle
  imports Main "HOL-Library.Sublist" "HOL-Library.AList"
begin

section \<open>PyClutterCutter: the reachability scan and the disposition workflow\<close>

text \<open>
  The development follows \<^verbatim>\<open>PyClutterCutter.py\<close> function by function. Python values are
  modelled as follows: \<^verbatim>\<open>str\<close> is \<^typ>\<open>string\<close>, \<^verbatim>\<open>int\<close> is \<^typ>\<open>int\<close>, a Python \<^verbatim>\<open>set\<close> is a
  HOL set, the dictionary \<^verbatim>\<open>all_files\<close> is an association list, and an exception is a value: its class
  together with the text that \<^verbatim>\<open>str(e)\<close> returns. Everything the program obtains from the
  operating system or from the Python runtime (directory traversal, \<^verbatim>\<open>os.stat\<close>, reading and
  parsing a file, \<^verbatim>\<open>importlib.util.find_spec\<close>, path arithmetic, removing and moving files,
  the order in which a set is iterated) is a field of the record \<open>runtime\<close>, a function of
  the current file system \<open>'fs\<close>; the theorems hold for every such runtime.
\<close>

subsection \<open>Exceptions\<close>

datatype exn_class =
    ImportError | ModuleNotFoundError | AttributeError
  | ValueError | SyntaxError | OSError | IndexError | EOFError | RecursionError

type_synonym exn = "exn_class \<times> string"

type_synonym path = string

subsection \<open>Configuration\<close>

record config =
  MAIN_FILE :: string
  IGNORE_DIRS :: "string set"
  EXTENSIONS :: "string set"
  SIZE_THRESHOLD :: int
  EXCLUDE_SELF :: bool
  ARCHIVE_FOLDER :: string
  USE_PARALLEL :: bool
  MAX_THREADS :: int

definition DEFAULT_CONFIG :: config where
  "DEFAULT_CONFIG =
     \<lparr> MAIN_FILE = ''app.py'',
       IGNORE_DIRS = {''venv'', ''.git'', ''__pycache__'', ''node_modules''},
       EXTENSIONS = {''.py''},
       SIZE_THRESHOLD = 1024 * 1024,
       EXCLUDE_SELF = True,
       ARCHIVE_FOLDER = ''Guido_Gallery'',
       USE_PARALLEL = True,
       MAX_THREADS = 4 \<rparr>"

subsection \<open>The syntax tree of a source file\<close>

text \<open>
  Of the tree that \<^verbatim>\<open>ast.parse\<close> returns, the program looks at two kinds of node:
  \<^verbatim>\<open>ast.Import\<close> with the names of its aliases and \<^verbatim>\<open>ast.ImportFrom\<close> with its
  \<^verbatim>\<open>module\<close> (which is \<^verbatim>\<open>None\<close> in \<^verbatim>\<open>from . import y\<close>) and the names of its aliases.
  Every other node is \<open>Other\<close> with its children.
\<close>

datatype node =
    Import "string list"
  | ImportFrom "string option" "string list"
  | Other "node list"

fun iter_child_nodes :: "node \<Rightarrow> node list" where
  "iter_child_nodes (Other ns) = ns"
| "iter_child_nodes (Import names) = []"
| "iter_child_nodes (ImportFrom m names) = []"

text \<open>\<^verbatim>\<open>ast.walk\<close>: breadth first, from a queue that starts with the root.\<close>

function walk_queue :: "node list \<Rightarrow> node list" where
  "walk_queue [] = []"
| "walk_queue (n # todo) = n # walk_queue (todo @ iter_child_nodes n)"
  by pat_completeness auto
termination
proof (relation "measure (\<lambda>todo. size_list size todo)")
  show "wf (measure (\<lambda>todo :: node list. size_list size todo))"
    by simp
next
  fix n :: node and todo :: "node list"
  have "size_list size (iter_child_nodes n) < size n + 1"
    by (cases n) simp_all
  then show "(todo @ iter_child_nodes n, n # todo) \<in> measure (\<lambda>todo. size_list size todo)"
    by simp
qed

definition walk :: "node \<Rightarrow> node list" where
  "walk tree = walk_queue [tree]"

subsection \<open>File metadata and module specs\<close>

record stat_result =
  st_size :: int
  st_ctime :: int
  st_mtime :: int

record file_info =
  size :: int
  created :: string
  modified :: string

text \<open>
  The part of \<^verbatim>\<open>importlib.machinery.ModuleSpec\<close> that the program reads: \<^verbatim>\<open>origin\<close>, which
  is \<^verbatim>\<open>None\<close> for a namespace package and a string otherwise.
\<close>

datatype module_spec = ModuleSpec (origin: "string option")

subsection \<open>The runtime\<close>

text \<open>
  What the program obtains from outside itself. \<open>import_failure\<close> is the exception of
  the first \<^verbatim>\<open>import\<close> statement of the module that fails, if one does;
  \<open>python_version\<close> is the major and minor number of \<^verbatim>\<open>sys.version_info\<close>;
  \<open>script_path\<close> is \<^verbatim>\<open>os.path.abspath(__file__)\<close>. \<open>set_iter\<close> is the order in which a
  \<^verbatim>\<open>for\<close> loop visits the elements of a set of strings, which Python leaves open.
  \<open>read_lines\<close> and \<open>read_config\<close> open and read a file (the latter through
  \<^verbatim>\<open>yaml.safe_load\<close>, giving the keys it overrides), \<open>os_walk\<close> lists each directory
  below a root with its files, and \<open>parse_source\<close> opens a file and parses it with
  \<^verbatim>\<open>ast.parse\<close>; each of them and \<open>os_stat\<close> and \<open>find_spec\<close> either raises or returns.
  \<open>os_remove\<close>, \<open>os_makedirs\<close> and \<open>shutil_move\<close> return the exception they raise, if
  any, and the file system they leave.
\<close>

record 'fs runtime =
  import_failure :: "exn option"
  python_version :: "nat \<times> nat"
  getcwd :: path
  script_path :: path
  path_join :: "path \<Rightarrow> path \<Rightarrow> path"
  basename :: "path \<Rightarrow> string"
  relpath :: "path \<Rightarrow> path \<Rightarrow> path"
  fnmatch :: "string \<Rightarrow> string \<Rightarrow> bool"
  strftime :: "int \<Rightarrow> string"
  set_iter :: "string set \<Rightarrow> string list"
  path_exists :: "'fs \<Rightarrow> path \<Rightarrow> bool"
  read_lines :: "'fs \<Rightarrow> path \<Rightarrow> exn + string list"
  read_config :: "'fs \<Rightarrow> path \<Rightarrow> exn + (config \<Rightarrow> config)"
  os_walk :: "'fs \<Rightarrow> path \<Rightarrow> (path \<times> string list) list"
  os_stat :: "'fs \<Rightarrow> path \<Rightarrow> exn + stat_result"
  parse_source :: "'fs \<Rightarrow> path \<Rightarrow> exn + node"
  find_spec :: "'fs \<Rightarrow> string \<Rightarrow> exn + module_spec option"
  os_remove :: "'fs \<Rightarrow> path \<Rightarrow> exn option \<times> 'fs"
  os_makedirs :: "'fs \<Rightarrow> path \<Rightarrow> exn option \<times> 'fs"
  shutil_move :: "'fs \<Rightarrow> path \<Rightarrow> path \<Rightarrow> exn option \<times> 'fs"

subsection \<open>Strings\<close>

text \<open>
  A \<^typ>\<open>char\<close> is one character of a Python string with a code below 256. \<^verbatim>\<open>str.strip\<close>
  removes from both ends the characters that \<^verbatim>\<open>str.isspace\<close> accepts; below 256 these are
  the codes 9 to 13, 28 to 32, 133 and 160. \<^verbatim>\<open>str.lower\<close> maps \<^verbatim>\<open>A\<close> to \<^verbatim>\<open>Z\<close> to \<^verbatim>\<open>a\<close> to
  \<^verbatim>\<open>z\<close>. The program compares lowered strings with the letters \<^verbatim>\<open>a\<close>, \<^verbatim>\<open>d\<close>, \<^verbatim>\<open>m\<close>, \<^verbatim>\<open>n\<close>,
  \<^verbatim>\<open>q\<close> and \<^verbatim>\<open>y\<close> only, which no character outside ASCII lowers to.
\<close>

definition py_isspace :: "char \<Rightarrow> bool" where
  "py_isspace c = (c \<in> {CHR '' '', CHR 0x09, CHR 0x0A, CHR 0x0B, CHR 0x0C, CHR 0x0D,
                         CHR 0x1C, CHR 0x1D, CHR 0x1E, CHR 0x1F, CHR 0x85, CHR 0xA0})"

definition py_strip :: "string \<Rightarrow> string" where
  "py_strip s = rev (dropWhile py_isspace (rev (dropWhile py_isspace s)))"

definition lower_char :: "char \<Rightarrow> char" where
  "lower_char c =
     (let n = (of_char c :: nat) in if 65 \<le> n \<and> n \<le> 90 then char_of (n + 32) else c)"

definition py_lower :: "string \<Rightarrow> string" where
  "py_lower s = map lower_char s"

subsection \<open>The ignore filter\<close>

definition parse_gitignore :: "'fs runtime \<Rightarrow> 'fs \<Rightarrow> path \<Rightarrow> exn + string set" where
  "parse_gitignore rt fs directory =
     (let gitignore_path = path_join rt directory ''.gitignore'' in
      if path_exists rt fs gitignore_path then
        (case read_lines rt fs gitignore_path of
           Inl e \<Rightarrow> Inl e
         | Inr lines \<Rightarrow>
             Inr (set (filter (\<lambda>line. line \<noteq> [] \<and> \<not> prefix ''#'' line) (map py_strip lines))))
      else Inr {})"

definition should_ignore :: "'fs runtime \<Rightarrow> path \<Rightarrow> string set \<Rightarrow> string set \<Rightarrow> bool" where
  "should_ignore rt file_path ignore_patterns standard_ignores =
     (let relative_path = relpath rt file_path (getcwd rt) in
      if \<exists>ignore \<in> standard_ignores. prefix ignore relative_path then True
      else if \<exists>pattern \<in> ignore_patterns. fnmatch rt relative_path pattern then True
      else False)"

subsection \<open>The import extractor\<close>

text \<open>
  The body of the loop over \<^verbatim>\<open>ast.walk(tree)\<close>: an \<^verbatim>\<open>Import\<close> node adds the name of each
  alias, an \<^verbatim>\<open>ImportFrom\<close> node adds \<^verbatim>\<open>f"{module}.{alias.name}"\<close>, where \<^verbatim>\<open>module\<close> is the
  empty string when \<^verbatim>\<open>node.module\<close> is \<^verbatim>\<open>None\<close> or empty.
\<close>

fun add_imports :: "node \<Rightarrow> string set \<Rightarrow> string set" where
  "add_imports (Import names) imports = fold (\<lambda>alias. insert alias) names imports"
| "add_imports (ImportFrom node_module names) imports =
     (let module = (case node_module of
                      None \<Rightarrow> []
                    | Some m \<Rightarrow> if m \<noteq> [] then m else [])
      in fold (\<lambda>alias. insert (module @ ''.'' @ alias)) names imports)"
| "add_imports (Other children) imports = imports"

definition imports_of_tree :: "node \<Rightarrow> string set" where
  "imports_of_tree tree = fold add_imports (walk tree) {}"

definition get_imported_modules :: "'fs runtime \<Rightarrow> 'fs \<Rightarrow> path \<Rightarrow> exn + string set" where
  "get_imported_modules rt fs file_path =
     (case parse_source rt fs file_path of
        Inl e \<Rightarrow> Inl e
      | Inr tree \<Rightarrow> Inr (imports_of_tree tree))"

subsection \<open>The inventory scanner\<close>

definition get_file_info :: "'fs runtime \<Rightarrow> 'fs \<Rightarrow> path \<Rightarrow> exn + file_info" where
  "get_file_info rt fs file_path =
     (case os_stat rt fs file_path of
        Inl e \<Rightarrow> Inl e
      | Inr stat \<Rightarrow>
          Inr \<lparr> size = st_size stat,
                created = strftime rt (st_ctime stat),
                modified = strftime rt (st_mtime stat) \<rparr>)"

type_synonym process_args = "path \<times> string set \<times> string set \<times> string"

type_synonym process_result = "(path \<times> file_info \<times> bool) option"

definition process_file ::
  "'fs runtime \<Rightarrow> config \<Rightarrow> 'fs \<Rightarrow> process_args \<Rightarrow> exn + process_result" where
  "process_file rt cfg fs args =
     (case args of (file_path, ignore_patterns, standard_ignores, main_file) \<Rightarrow>
        if \<not> should_ignore rt file_path ignore_patterns standard_ignores \<and>
           (\<exists>ext \<in> EXTENSIONS cfg. suffix ext file_path)
        then (case get_file_info rt fs file_path of
                Inl e \<Rightarrow> Inl e
              | Inr file_info \<Rightarrow>
                  Inr (Some (file_path, file_info, basename rt file_path = main_file)))
        else Inr None)"

text \<open>
  \<^verbatim>\<open>pool.map(process_file, file_list)\<close>: every file is processed before the call returns,
  the results are in the order of \<^verbatim>\<open>file_list\<close>, and an exception of \<^verbatim>\<open>process_file\<close> is
  raised again by the call.
\<close>

fun map_process_file ::
  "'fs runtime \<Rightarrow> config \<Rightarrow> 'fs \<Rightarrow> process_args list \<Rightarrow> exn + process_result list" where
  "map_process_file rt cfg fs [] = Inr []"
| "map_process_file rt cfg fs (args # rest) =
     (case process_file rt cfg fs args of
        Inl e \<Rightarrow> Inl e
      | Inr result \<Rightarrow>
          (case map_process_file rt cfg fs rest of
             Inl e \<Rightarrow> Inl e
           | Inr results \<Rightarrow> Inr (result # results)))"

subsection \<open>The reachability computation\<close>

text \<open>
  The four local variables of \<^verbatim>\<open>find_unused_files\<close>, and the lines it prints
  (\<^verbatim>\<open>Error processing ...\<close>). The dictionary \<^verbatim>\<open>all_files\<close> is an association list in the
  order of insertion, as a Python dictionary is; \<^verbatim>\<open>all_files[k] = v\<close> replaces the value of
  a key that is present and appends a key that is not.
\<close>

record scan_state =
  used_files :: "path set"
  all_files :: "(path \<times> file_info) list"
  problematic_imports :: "(string \<times> string) set"
  large_files :: "path set"
  errors_printed :: "(path \<times> string) list"

definition initial_scan_state :: scan_state where
  "initial_scan_state =
     \<lparr> used_files = {}, all_files = [], problematic_imports = {},
       large_files = {}, errors_printed = [] \<rparr>"

text \<open>
  The inner \<^verbatim>\<open>try\<close> for one import name. \<^verbatim>\<open>find_spec\<close> is asked for
  \<^verbatim>\<open>import_name.split('.')[0]\<close>, the text before the first dot. The \<^verbatim>\<open>except\<close> clause
  catches three classes; any other exception leaves the loop over the names, with the
  sets as they are at that moment.
\<close>

definition top_level_name :: "string \<Rightarrow> string" where
  "top_level_name import_name = takeWhile (\<lambda>c. c \<noteq> CHR ''.'') import_name"

definition resolve_import ::
  "'fs runtime \<Rightarrow> 'fs \<Rightarrow> string \<Rightarrow> scan_state \<Rightarrow> exn option \<times> scan_state" where
  "resolve_import rt fs import_name s =
     (case find_spec rt fs (top_level_name import_name) of
        Inr spec \<Rightarrow>
          (case spec of
             None \<Rightarrow> (None, s)
           | Some sp \<Rightarrow>
               (case origin sp of
                  None \<Rightarrow> (None, s)
                | Some file \<Rightarrow>
                    if file \<noteq> [] then (None, s\<lparr>used_files := insert file (used_files s)\<rparr>)
                    else (None, s)))
      | Inl e \<Rightarrow>
          if fst e \<in> {ImportError, AttributeError, ModuleNotFoundError}
          then (None, s\<lparr>problematic_imports :=
                           insert (import_name, snd e) (problematic_imports s)\<rparr>)
          else (Some e, s))"

fun resolve_imports ::
  "'fs runtime \<Rightarrow> 'fs \<Rightarrow> string list \<Rightarrow> scan_state \<Rightarrow> exn option \<times> scan_state" where
  "resolve_imports rt fs [] s = (None, s)"
| "resolve_imports rt fs (import_name # rest) s =
     (case resolve_import rt fs import_name s of
        (None, s') \<Rightarrow> resolve_imports rt fs rest s'
      | (Some e, s') \<Rightarrow> (Some e, s'))"

text \<open>The body of the loop \<^verbatim>\<open>for result in results\<close>.\<close>

definition record_result ::
  "'fs runtime \<Rightarrow> config \<Rightarrow> 'fs \<Rightarrow> process_result \<Rightarrow> scan_state \<Rightarrow> scan_state" where
  "record_result rt cfg fs result s =
     (case result of
        None \<Rightarrow> s
      | Some (file_path, file_info, is_main) \<Rightarrow>
          let s1 = s\<lparr>all_files := AList.update file_path file_info (all_files s)\<rparr>;
              s2 = (if size file_info > SIZE_THRESHOLD cfg
                    then s1\<lparr>large_files := insert file_path (large_files s1)\<rparr>
                    else s1)
          in if is_main then
               (let s3 = s2\<lparr>used_files := insert file_path (used_files s2)\<rparr> in
                case get_imported_modules rt fs file_path of
                  Inl e \<Rightarrow> s3\<lparr>errors_printed := errors_printed s3 @ [(file_path, snd e)]\<rparr>
                | Inr imports \<Rightarrow>
                    (case resolve_imports rt fs (set_iter rt imports) s3 of
                       (None, s4) \<Rightarrow> s4
                     | (Some e, s4) \<Rightarrow>
                         s4\<lparr>errors_printed := errors_printed s4 @ [(file_path, snd e)]\<rparr>))
             else s2)"

definition file_list ::
  "'fs runtime \<Rightarrow> config \<Rightarrow> 'fs \<Rightarrow> path \<Rightarrow> string set \<Rightarrow> process_args list" where
  "file_list rt cfg fs directory ignore_patterns =
     [(path_join rt root file, ignore_patterns, IGNORE_DIRS cfg, MAIN_FILE cfg).
        (root, files) \<leftarrow> os_walk rt fs directory, file \<leftarrow> files,
        \<not> (EXCLUDE_SELF cfg \<and> path_join rt root file = script_path rt)]"

text \<open>
  The list \<^verbatim>\<open>results\<close> of the branch \<^verbatim>\<open>if CONFIG['USE_PARALLEL']\<close>.
  \<^verbatim>\<open>multiprocessing.Pool\<close> refuses a number of processes below one with a \<^verbatim>\<open>ValueError\<close>.
  When \<^verbatim>\<open>USE_PARALLEL\<close> is unset the same list is what the iterator of the other branch
  yields, one result at a time, if \<^verbatim>\<open>process_file\<close> raises for no file.
\<close>

definition scan_results ::
  "'fs runtime \<Rightarrow> config \<Rightarrow> 'fs \<Rightarrow> path \<Rightarrow> exn + process_result list" where
  "scan_results rt cfg fs directory =
     (case parse_gitignore rt fs directory of
        Inl e \<Rightarrow> Inl e
      | Inr ignore_patterns \<Rightarrow>
          if USE_PARALLEL cfg \<and> MAX_THREADS cfg < 1
          then Inl (ValueError, ''Number of processes must be at least 1'')
          else map_process_file rt cfg fs (file_list rt cfg fs directory ignore_patterns))"

text \<open>
  In the other branch \<^verbatim>\<open>results\<close> is the iterator \<^verbatim>\<open>map(process_file, file_list)\<close>:
  \<^verbatim>\<open>process_file\<close> runs for a file when the loop asks for its result, after the loop body
  has run for the files before it. An exception of \<^verbatim>\<open>process_file\<close> then leaves the loop
  with what the files before it have recorded and printed.
\<close>

fun lazy_loop ::
  "'fs runtime \<Rightarrow> config \<Rightarrow> 'fs \<Rightarrow> process_args list \<Rightarrow> scan_state \<Rightarrow>
     exn option \<times> scan_state" where
  "lazy_loop rt cfg fs [] s = (None, s)"
| "lazy_loop rt cfg fs (args # rest) s =
     (case process_file rt cfg fs args of
        Inl e \<Rightarrow> (Some e, s)
      | Inr result \<Rightarrow> lazy_loop rt cfg fs rest (record_result rt cfg fs result s))"

text \<open>
  \<^verbatim>\<open>find_unused_files\<close> up to the end of the loop: the exception that left it, if one did,
  and the state of its variables at that moment.
\<close>

definition scan_loop ::
  "'fs runtime \<Rightarrow> config \<Rightarrow> 'fs \<Rightarrow> path \<Rightarrow> exn option \<times> scan_state" where
  "scan_loop rt cfg fs directory =
     (if USE_PARALLEL cfg then
        (case scan_results rt cfg fs directory of
           Inl e \<Rightarrow> (Some e, initial_scan_state)
         | Inr results \<Rightarrow> (None, fold (record_result rt cfg fs) results initial_scan_state))
      else
        (case parse_gitignore rt fs directory of
           Inl e \<Rightarrow> (Some e, initial_scan_state)
         | Inr ignore_patterns \<Rightarrow>
             lazy_loop rt cfg fs (file_list rt cfg fs directory ignore_patterns)
               initial_scan_state))"

text \<open>The state with which the loop ends, or the exception that leaves it.\<close>

definition scan :: "'fs runtime \<Rightarrow> config \<Rightarrow> 'fs \<Rightarrow> path \<Rightarrow> exn + scan_state" where
  "scan rt cfg fs directory =
     (case scan_loop rt cfg fs directory of
        (None, s) \<Rightarrow> Inr s
      | (Some e, s) \<Rightarrow> Inl e)"

type_synonym scan_report =
  "path set \<times> (string \<times> string) set \<times> path set \<times> (path \<times> file_info) list"

definition find_unused_files :: "'fs runtime \<Rightarrow> config \<Rightarrow> 'fs \<Rightarrow> path \<Rightarrow> exn + scan_report" where
  "find_unused_files rt cfg fs directory =
     (case scan rt cfg fs directory of
        Inl e \<Rightarrow> Inl e
      | Inr s \<Rightarrow>
          (let unused_files = set (map fst (all_files s)) - used_files s
           in Inr (unused_files, problematic_imports s, large_files s, all_files s)))"

text \<open>
  The lines that \<^verbatim>\<open>find_unused_files\<close> has printed when it returns or when an exception
  leaves it.
\<close>

definition find_unused_files_output ::
  "'fs runtime \<Rightarrow> config \<Rightarrow> 'fs \<Rightarrow> path \<Rightarrow> (path \<times> string) list" where
  "find_unused_files_output rt cfg fs directory =
     errors_printed (snd (scan_loop rt cfg fs directory))"

subsection \<open>The world of the disposition workflow\<close>

text \<open>
  The workflow reads single characters from the terminal (\<^verbatim>\<open>get_char\<close>), reads lines
  (\<^verbatim>\<open>input\<close>), prints, and changes the file system. The world holds the file system, the
  characters and the lines that are still to come, and what has been printed, one event
  for each \<^verbatim>\<open>print\<close> or prompt of the program; the menu that \<^verbatim>\<open>interactive_select\<close>
  redraws after each key is not recorded.
\<close>

datatype action = Delete | Archive

datatype event =
    Version_warning
  | Running_banner
  | Main_banner path
  | Error_processing path string
  | Report_unused "path set"
  | Report_clean
  | Report_problematic "(string \<times> string) set"
  | Report_large "path set"
  | Disclaimer
  | Time_to_decide
  | Operation_cancelled
  | No_files_selected
  | Files_selected action "path list"
  | Prompt_confirm action
  | Delete_preview "path list"
  | Archive_preview path
  | Prompt_final action
  | Deleted path
  | Error_deleting path string
  | Cleanup_complete
  | Deletion_cancelled
  | Moved path
  | Error_moving path string
  | Archiving_complete
  | Archiving_cancelled
  | Action_cancelled action
  | Dry_run_completed
  | Nothing_to_process
  | Reminder

record 'fs world =
  disk :: 'fs
  stdin_keys :: "char list"
  stdin_lines :: "string list"
  printed :: "event list"

definition say :: "event list \<Rightarrow> 'fs world \<Rightarrow> 'fs world" where
  "say es w = w\<lparr>printed := printed w @ es\<rparr>"

text \<open>\<^verbatim>\<open>input(prompt)\<close>: the next line, or \<^verbatim>\<open>EOFError\<close> when there is none.\<close>

definition input :: "'fs world \<Rightarrow> string option \<times> 'fs world" where
  "input w =
     (case stdin_lines w of
        [] \<Rightarrow> (None, w)
      | line # rest \<Rightarrow> (Some line, w\<lparr>stdin_lines := rest\<rparr>))"

subsection \<open>The interactive selection\<close>

record menu_state =
  selected :: "bool list"
  current :: int

text \<open>
  A Python index: a negative one counts from the end, and one outside the list raises
  \<^verbatim>\<open>IndexError\<close>.
\<close>

definition py_index :: "'a list \<Rightarrow> int \<Rightarrow> nat option" where
  "py_index xs i =
     (let n = int (length xs) in
      if 0 \<le> i \<and> i < n then Some (nat i)
      else if - n \<le> i \<and> i < 0 then Some (nat (n + i))
      else None)"

text \<open>\<^verbatim>\<open>[options[i] for i in range(len(options)) if selected[i]]\<close>\<close>

definition chosen :: "string list \<Rightarrow> bool list \<Rightarrow> exn + string list" where
  "chosen options sel =
     (if length sel < length options then Inl (IndexError, ''list index out of range'')
      else Inr [options ! i. i \<leftarrow> [0 ..< length options], sel ! i])"

datatype menu_step =
    Continue menu_state
  | Return "(string list \<times> action) option"
  | Raise exn

text \<open>The branch for a key that began with the escape character, read with two more.\<close>

definition arrow :: "string list \<Rightarrow> string \<Rightarrow> menu_state \<Rightarrow> menu_state" where
  "arrow options key st =
     (if key = [CHR 0x1B, CHR ''['', CHR ''A''] \<and> current st > 0
      then st\<lparr>current := current st - 1\<rparr>
      else if key = [CHR 0x1B, CHR ''['', CHR ''B''] \<and> current st < int (length options) - 1
      then st\<lparr>current := current st + 1\<rparr>
      else st)"

text \<open>The branches for every other key.\<close>

definition press :: "string list \<Rightarrow> string \<Rightarrow> menu_state \<Rightarrow> menu_step" where
  "press options key st =
     (if key = '' '' then
        (case py_index (selected st) (current st) of
           None \<Rightarrow> Raise (IndexError, ''list index out of range'')
         | Some i \<Rightarrow> Continue (st\<lparr>selected := (selected st)[i := \<not> selected st ! i]\<rparr>))
      else if py_lower key = ''a'' then
        Continue (st\<lparr>selected := replicate (length options) True\<rparr>)
      else if py_lower key = ''n'' then
        Continue (st\<lparr>selected := replicate (length options) False\<rparr>)
      else if py_lower key = ''q'' then Return None
      else if py_lower key = ''d'' then
        (case chosen options (selected st) of
           Inl e \<Rightarrow> Raise e
         | Inr files \<Rightarrow> Return (Some (files, Delete)))
      else if py_lower key = ''m'' then
        (case chosen options (selected st) of
           Inl e \<Rightarrow> Raise e
         | Inr files \<Rightarrow> Return (Some (files, Archive)))
      else Continue st)"

text \<open>
  The \<^verbatim>\<open>while True\<close> loop over the characters that arrive. \<^verbatim>\<open>get_char\<close> is the head of the
  list; when no character is left the loop waits in \<^verbatim>\<open>get_char\<close> and the function has not
  returned: the outcome is \<open>Waiting\<close> with the state reached.
\<close>

datatype select_outcome =
    Waiting menu_state
  | Returned "(string list \<times> action) option"
  | Raised exn

fun select_loop :: "string list \<Rightarrow> menu_state \<Rightarrow> char list \<Rightarrow> select_outcome \<times> char list" where
  "select_loop options st [] = (Waiting st, [])"
| "select_loop options st (c # cs) =
     (if c = CHR 0x1B then
        (case cs of
           c1 # c2 # cs' \<Rightarrow> select_loop options (arrow options [c, c1, c2] st) cs'
         | _ \<Rightarrow> (Waiting st, []))
      else
        (case press options [c] st of
           Continue st' \<Rightarrow> select_loop options st' cs
         | Return result \<Rightarrow> (Returned result, cs)
         | Raise e \<Rightarrow> (Raised e, cs)))"

definition initial_menu_state :: "string list \<Rightarrow> menu_state" where
  "initial_menu_state options = \<lparr> selected = replicate (length options) False, current = 0 \<rparr>"

definition interactive_select :: "string list \<Rightarrow> 'fs world \<Rightarrow> select_outcome \<times> 'fs world" where
  "interactive_select options w =
     (case select_loop options (initial_menu_state options) (stdin_keys w) of
        (outcome, rest) \<Rightarrow> (outcome, w\<lparr>stdin_keys := rest\<rparr>))"

subsection \<open>Deleting and archiving\<close>

fun delete_files :: "'fs runtime \<Rightarrow> path list \<Rightarrow> 'fs world \<Rightarrow> 'fs world" where
  "delete_files rt [] w = w"
| "delete_files rt (file # rest) w =
     (case os_remove rt (disk w) file of
        (None, d) \<Rightarrow> delete_files rt rest (say [Deleted file] (w\<lparr>disk := d\<rparr>))
      | (Some e, d) \<Rightarrow> delete_files rt rest (say [Error_deleting file (snd e)] (w\<lparr>disk := d\<rparr>)))"

text \<open>The loop of \<^verbatim>\<open>move_to_archive\<close>.\<close>

fun move_files :: "'fs runtime \<Rightarrow> path \<Rightarrow> path list \<Rightarrow> 'fs world \<Rightarrow> 'fs world" where
  "move_files rt archive_folder [] w = w"
| "move_files rt archive_folder (file # rest) w =
     (let dest = path_join rt archive_folder (basename rt file) in
      case shutil_move rt (disk w) file dest of
        (None, d) \<Rightarrow> move_files rt archive_folder rest (say [Moved file] (w\<lparr>disk := d\<rparr>))
      | (Some e, d) \<Rightarrow>
          move_files rt archive_folder rest (say [Error_moving file (snd e)] (w\<lparr>disk := d\<rparr>)))"

definition move_to_archive ::
  "'fs runtime \<Rightarrow> path list \<Rightarrow> path \<Rightarrow> 'fs world \<Rightarrow> exn option \<times> 'fs world" where
  "move_to_archive rt files_to_move archive_folder w =
     (if \<not> path_exists rt (disk w) archive_folder then
        (case os_makedirs rt (disk w) archive_folder of
           (Some e, d) \<Rightarrow> (Some e, w\<lparr>disk := d\<rparr>)
         | (None, d) \<Rightarrow> (None, move_files rt archive_folder files_to_move (w\<lparr>disk := d\<rparr>)))
      else (None, move_files rt archive_folder files_to_move w))"

subsection \<open>The main function\<close>

text \<open>
  How a stretch of \<^verbatim>\<open>main\<close> ends: it reaches its last line, it executes \<^verbatim>\<open>return\<close>, it
  raises, or it waits for a key that never comes.
\<close>

datatype flow = Falls_through | Returns | Raises exn | Blocks

text \<open>
  The branch \<^verbatim>\<open>if unused and not args.dry_run\<close>: the menu, the two confirmations and the
  execution.
\<close>

definition disposition ::
  "'fs runtime \<Rightarrow> path \<Rightarrow> path \<Rightarrow> path set \<Rightarrow> 'fs world \<Rightarrow> flow \<times> 'fs world" where
  "disposition rt app_directory archive_path unused w =
     (let relative_paths = map (\<lambda>file. relpath rt file app_directory) (set_iter rt unused) in
      case interactive_select relative_paths (say [Time_to_decide] w) of
        (Waiting st, w1) \<Rightarrow> (Blocks, w1)
      | (Raised e, w1) \<Rightarrow> (Raises e, w1)
      | (Returned None, w1) \<Rightarrow> (Returns, say [Operation_cancelled] w1)
      | (Returned (Some (selected_files, action)), w1) \<Rightarrow>
          (let files_to_process = map (\<lambda>file. path_join rt app_directory file) selected_files in
           if files_to_process = [] then (Returns, say [No_files_selected] w1)
           else
             (case input (say [Files_selected action files_to_process, Prompt_confirm action] w1) of
                (None, w2) \<Rightarrow> (Raises (EOFError, ''EOF when reading a line''), w2)
              | (Some confirm, w2) \<Rightarrow>
                  if py_lower confirm = ''y'' then
                    (case action of
                       Delete \<Rightarrow>
                         (case input (say [Delete_preview files_to_process, Prompt_final Delete] w2) of
                            (None, w3) \<Rightarrow> (Raises (EOFError, ''EOF when reading a line''), w3)
                          | (Some final_confirm, w3) \<Rightarrow>
                              if py_lower final_confirm = ''y''
                              then (Falls_through,
                                    say [Cleanup_complete] (delete_files rt files_to_process w3))
                              else (Falls_through, say [Deletion_cancelled] w3))
                     | Archive \<Rightarrow>
                         (case input (say [Archive_preview archive_path, Prompt_final Archive] w2) of
                            (None, w3) \<Rightarrow> (Raises (EOFError, ''EOF when reading a line''), w3)
                          | (Some final_confirm, w3) \<Rightarrow>
                              if py_lower final_confirm = ''y''
                              then (case move_to_archive rt files_to_process archive_path w3 of
                                      (Some e, w4) \<Rightarrow> (Raises e, w4)
                                    | (None, w4) \<Rightarrow> (Falls_through, say [Archiving_complete] w4))
                              else (Falls_through, say [Archiving_cancelled] w3)))
                  else (Falls_through, say [Action_cancelled action] w2))))"

text \<open>
  The body of \<^verbatim>\<open>main\<close> from the return of \<^verbatim>\<open>parse_arguments\<close> up to its last \<^verbatim>\<open>print\<close>.
  \<open>dry_run\<close> is \<^verbatim>\<open>args.dry_run\<close> as \<^verbatim>\<open>parse_arguments\<close> returns it; a command line that
  \<^verbatim>\<open>argparse\<close> answers with \<^verbatim>\<open>SystemExit\<close> (\<^verbatim>\<open>-h\<close>, an option it does not know) ends \<^verbatim>\<open>main\<close> in
  its first statement, before anything is printed, read or changed, and is not a value
  of \<open>main_body\<close>. \<^verbatim>\<open>os.path.abspath(".")\<close> is the working directory. An exception that
  leaves \<^verbatim>\<open>find_unused_files\<close> leaves \<^verbatim>\<open>main\<close> as well, after the lines that the scan has
  printed.
\<close>

definition main_body :: "'fs runtime \<Rightarrow> config \<Rightarrow> bool \<Rightarrow> 'fs world \<Rightarrow> flow \<times> 'fs world" where
  "main_body rt cfg dry_run w =
     (let app_directory = getcwd rt;
          archive_path = path_join rt app_directory (ARCHIVE_FOLDER cfg);
          w0 = say [Main_banner archive_path] w;
          w1 = say (map (\<lambda>(file_path, msg). Error_processing file_path msg)
                      (find_unused_files_output rt cfg (disk w0) app_directory)) w0
      in case find_unused_files rt cfg (disk w0) app_directory of
           Inl e \<Rightarrow> (Raises e, w1)
         | Inr (unused, problematic, large, inventory) \<Rightarrow>
             (let w2 = say [if unused \<noteq> {} then Report_unused unused else Report_clean] w1;
                  w3 = (if problematic \<noteq> {} then say [Report_problematic problematic] w2 else w2);
                  w4 = (if large \<noteq> {} then say [Report_large large] w3 else w3);
                  w5 = say [Disclaimer] w4
              in case (if unused \<noteq> {} \<and> \<not> dry_run
                       then disposition rt app_directory archive_path unused w5
                       else if dry_run then (Falls_through, say [Dry_run_completed] w5)
                       else (Falls_through, say [Nothing_to_process] w5)) of
                   (Falls_through, w6) \<Rightarrow> (Falls_through, say [Reminder] w6)
                 | (other, w6) \<Rightarrow> (other, w6)))"

text \<open>
  The last statement of \<^verbatim>\<open>main\<close> is \<^verbatim>\<open>if __name__ == "__main__": main()\<close>, inside the
  function. \<open>depth\<close> is the number of nested calls of \<^verbatim>\<open>main\<close> that the interpreter still
  allows before it raises \<^verbatim>\<open>RecursionError\<close>. The interpreter raises it in the call that
  exceeds its limit, which may be a call that \<^verbatim>\<open>main\<close> makes, and with a text that names
  that call; here it is raised where the call of \<^verbatim>\<open>main\<close> without allowance begins, with
  one text.
\<close>

fun main :: "nat \<Rightarrow> 'fs runtime \<Rightarrow> config \<Rightarrow> string \<Rightarrow> bool \<Rightarrow> 'fs world \<Rightarrow> flow \<times> 'fs world" where
  "main 0 rt cfg name dry_run w =
     (Raises (RecursionError, ''maximum recursion depth exceeded''), w)"
| "main (Suc depth) rt cfg name dry_run w =
     (case main_body rt cfg dry_run w of
        (Falls_through, w') \<Rightarrow>
          if name = ''__main__'' then main depth rt cfg name dry_run w' else (Returns, w')
      | (other, w') \<Rightarrow> (other, w'))"

subsection \<open>The module as a script\<close>

definition load_config :: "'fs runtime \<Rightarrow> 'fs \<Rightarrow> exn + config" where
  "load_config rt fs =
     (if path_exists rt fs ''config.yml'' then
        (case read_config rt fs ''config.yml'' of
           Inl e \<Rightarrow> Inl e
         | Inr overlay \<Rightarrow> Inr (overlay DEFAULT_CONFIG))
      else Inr DEFAULT_CONFIG)"

text \<open>
  The statements at the top level of the module, in their order: the \<^verbatim>\<open>import\<close>
  statements, the version check, the banner, \<^verbatim>\<open>CONFIG = load_config()\<close>, and the \<^verbatim>\<open>def\<close>
  statements, which bind names and execute nothing. No statement at the top level calls
  \<^verbatim>\<open>main\<close> or reads \<^verbatim>\<open>__name__\<close>. The result is the configuration (or the exception of an
  import or of \<^verbatim>\<open>load_config\<close>) and the world when the script ends.
\<close>

definition run_script :: "'fs runtime \<Rightarrow> 'fs world \<Rightarrow> (exn + config) \<times> 'fs world" where
  "run_script rt w =
     (case import_failure rt of
        Some e \<Rightarrow> (Inl e, w)
      | None \<Rightarrow>
          (let w1 = (if fst (python_version rt) < 3 \<or>
                        (fst (python_version rt) = 3 \<and> snd (python_version rt) < 6)
                     then say [Version_warning] w else w);
               w2 = say [Running_banner] w1
           in (load_config rt (disk w2), w2)))"

subsection \<open>A concrete runtime\<close>

text \<open>
  A small file system on which the general theorems are instantiated: a list of
  directories, each with the names of its files, and a runtime over it. The project is
  \<^verbatim>\<open>/proj\<close>; \<^verbatim>\<open>/proj/app.py\<close> and \<^verbatim>\<open>/proj/sub/app.py\<close> both carry the entry basename.
\<close>

type_synonym demo_fs = "(path \<times> string list) list"

definition demo_join :: "path \<Rightarrow> path \<Rightarrow> path" where
  "demo_join a b = a @ ''/'' @ b"

definition demo_basename :: "path \<Rightarrow> string" where
  "demo_basename p = rev (takeWhile (\<lambda>c. c \<noteq> CHR ''/'') (rev p))"

definition demo_dirname :: "path \<Rightarrow> path" where
  "demo_dirname p = rev (drop 1 (dropWhile (\<lambda>c. c \<noteq> CHR ''/'') (rev p)))"

definition demo_relpath :: "path \<Rightarrow> path \<Rightarrow> path" where
  "demo_relpath p start = (if prefix (start @ ''/'') p then drop (length start + 1) p else p)"

definition demo_files :: "demo_fs \<Rightarrow> path list" where
  "demo_files d = [demo_join root file. (root, files) \<leftarrow> d, file \<leftarrow> files]"

definition demo_exists :: "demo_fs \<Rightarrow> path \<Rightarrow> bool" where
  "demo_exists d p = (p \<in> set (demo_files d) \<or> p \<in> set (map fst d))"

definition demo_unlink :: "demo_fs \<Rightarrow> path \<Rightarrow> demo_fs" where
  "demo_unlink d p = map (\<lambda>(root, files). (root, filter (\<lambda>file. demo_join root file \<noteq> p) files)) d"

definition demo_remove :: "demo_fs \<Rightarrow> path \<Rightarrow> exn option \<times> demo_fs" where
  "demo_remove d p =
     (if p \<in> set (demo_files d) then (None, demo_unlink d p)
      else (Some (OSError, ''No such file or directory''), d))"

definition demo_makedirs :: "demo_fs \<Rightarrow> path \<Rightarrow> exn option \<times> demo_fs" where
  "demo_makedirs d p =
     (if demo_exists d p then (Some (OSError, ''File exists''), d) else (None, d @ [(p, [])]))"

definition demo_move :: "demo_fs \<Rightarrow> path \<Rightarrow> path \<Rightarrow> exn option \<times> demo_fs" where
  "demo_move d src dst =
     (if src \<in> set (demo_files d) \<and> demo_dirname dst \<in> set (map fst d)
      then (None, map (\<lambda>(root, files).
                         (root, if root = demo_dirname dst
                                then filter (\<lambda>file. file \<noteq> demo_basename dst) files
                                       @ [demo_basename dst]
                                else files))
                      (demo_unlink d src))
      else (Some (OSError, ''No such file or directory''), d))"

definition demo_stat :: "demo_fs \<Rightarrow> path \<Rightarrow> exn + stat_result" where
  "demo_stat d p =
     (if p \<in> set (demo_files d)
      then Inr \<lparr> st_size = (if demo_basename p = ''big.py'' then 1048577
                            else if demo_basename p = ''edge.py'' then 1048576
                            else 100),
                 st_ctime = 0, st_mtime = 0 \<rparr>
      else Inl (OSError, ''No such file or directory''))"

definition demo_tree :: node where
  "demo_tree =
     Other [Import [''os'', ''nosuchmod''],
            ImportFrom (Some ''helpers'') [''util''],
            ImportFrom None [''sibling''],
            Other [Import [''broken'', ''os'']]]"

definition demo_parse :: "demo_fs \<Rightarrow> path \<Rightarrow> exn + node" where
  "demo_parse d p =
     (if p \<notin> set (demo_files d) then Inl (OSError, ''No such file or directory'')
      else if p = ''/proj/app.py'' then Inr demo_tree
      else if p = ''/proj/sub/app.py'' then Inr (Other [Import [''ns'']])
      else if p = ''/proj/main.py'' then Inr (Other [Import [''sys'']])
      else Inr (Other []))"

definition demo_find_spec :: "demo_fs \<Rightarrow> string \<Rightarrow> exn + module_spec option" where
  "demo_find_spec d name =
     (if name = ''os'' then Inr (Some (ModuleSpec (Some ''/usr/lib/python3/os.py'')))
      else if name = ''helpers'' then Inr (Some (ModuleSpec (Some ''/proj/helpers.py'')))
      else if name = ''ns'' then Inr (Some (ModuleSpec None))
      else if name = ''sys'' then Inr (Some (ModuleSpec (Some ''built-in'')))
      else if name = ''broken'' then Inl (ImportError, ''cannot import broken'')
      else Inr None)"

definition demo_order :: "string list" where
  "demo_order =
     [''os'', ''nosuchmod'', ''helpers.util'', ''.sibling'', ''broken'', ''ns'',
      ''/proj/app.py'', ''/proj/helpers.py'', ''/proj/unrelated.py'', ''/proj/big.py'',
      ''/proj/edge.py'', ''/proj/sub/app.py'', ''sys'']"

definition demo_rt :: "demo_fs runtime" where
  "demo_rt =
     \<lparr> import_failure = None,
       python_version = (3, 11),
       getcwd = ''/proj'',
       script_path = ''/opt/tools/PyClutterCutter.py'',
       path_join = demo_join,
       basename = demo_basename,
       relpath = demo_relpath,
       fnmatch = (\<lambda>name pattern. name = pattern),
       strftime = (\<lambda>t. ''1970-01-01 00:00:00''),
       set_iter = (\<lambda>S. filter (\<lambda>x. x \<in> S) demo_order),
       path_exists = demo_exists,
       read_lines = (\<lambda>d p. Inl (OSError, ''No such file or directory'')),
       read_config = (\<lambda>d p. Inl (OSError, ''No such file or directory'')),
       os_walk = (\<lambda>d directory. filter (\<lambda>(root, files). prefix directory root) d),
       os_stat = demo_stat,
       parse_source = demo_parse,
       find_spec = demo_find_spec,
       os_remove = demo_remove,
       os_makedirs = demo_makedirs,
       shutil_move = demo_move \<rparr>"

definition demo_disk :: demo_fs where
  "demo_disk =
     [(''/proj'', [''app.py'', ''helpers.py'', ''unrelated.py'', ''big.py'', ''edge.py'',
                  ''notes.txt'']),
      (''/proj/sub'', [''app.py''])]"

text \<open>
  A second project, whose entry file \<^verbatim>\<open>main.py\<close> imports the built-in module \<^verbatim>\<open>sys\<close>; the
  origin of its spec is the text \<^verbatim>\<open>built-in\<close>.
\<close>

definition builtin_disk :: demo_fs where
  "builtin_disk = [(''/proj'', [''main.py''])]"

definition builtin_config :: config where
  "builtin_config = DEFAULT_CONFIG\<lparr>MAIN_FILE := ''main.py''\<rparr>"

text \<open>The same runtime in a project directory in which no directory can be created.\<close>

definition readonly_rt :: "demo_fs runtime" where
  "readonly_rt = demo_rt\<lparr>os_makedirs := (\<lambda>d p. (Some (OSError, ''Permission denied''), d))\<rparr>"

definition demo_world :: "string \<Rightarrow> string list \<Rightarrow> demo_fs world" where
  "demo_world ks ls = \<lparr> disk = demo_disk, stdin_keys = ks, stdin_lines = ls, printed = [] \<rparr>"

text \<open>A batch of three files, the second of which does not exist.\<close>

definition demo_batch :: "path list" where
  "demo_batch = [''/proj/unrelated.py'', ''/proj/missing.py'', ''/proj/big.py'']"

text \<open>The inventory that the scan of the project builds.\<close>

definition demo_info :: "int \<Rightarrow> file_info" where
  "demo_info n = \<lparr> size = n, created = ''1970-01-01 00:00:00'', modified = ''1970-01-01 00:00:00'' \<rparr>"

definition demo_inventory :: "(path \<times> file_info) list" where
  "demo_inventory =
     [(''/proj/app.py'', demo_info 100), (''/proj/helpers.py'', demo_info 100),
      (''/proj/unrelated.py'', demo_info 100), (''/proj/big.py'', demo_info 1048577),
      (''/proj/edge.py'', demo_info 1048576), (''/proj/sub/app.py'', demo_info 100)]"

text \<open>
  What \<^verbatim>\<open>main\<close> prints before the menu on the project, and the world after all three
  unused files have been archived.
\<close>

definition demo_reports :: "event list" where
  "demo_reports =
     [Main_banner ''/proj/Guido_Gallery'',
      Report_unused {''/proj/unrelated.py'', ''/proj/big.py'', ''/proj/edge.py''},
      Report_problematic {(''broken'', ''cannot import broken'')},
      Report_large {''/proj/big.py''},
      Disclaimer]"

definition demo_archived :: "demo_fs world" where
  "demo_archived =
     \<lparr> disk = [(''/proj'', [''app.py'', ''helpers.py'', ''notes.txt'']),
               (''/proj/sub'', [''app.py'']),
               (''/proj/Guido_Gallery'', [''unrelated.py'', ''big.py'', ''edge.py''])],
       stdin_keys = [], stdin_lines = [],
       printed = demo_reports @
         [Time_to_decide,
          Files_selected Archive [''/proj/unrelated.py'', ''/proj/big.py'', ''/proj/edge.py''],
          Prompt_confirm Archive, Archive_preview ''/proj/Guido_Gallery'',
          Prompt_final Archive,
          Moved ''/proj/unrelated.py'', Moved ''/proj/big.py'', Moved ''/proj/edge.py'',
          Archiving_complete, Reminder] \<rparr>"

subsection \<open>Auxiliary notions for the statements\<close>

text \<open>All nodes of a tree: the node itself and the nodes of its children.\<close>

fun nodes :: "node \<Rightarrow> node set" where
  "nodes (Other ns) = insert (Other ns) (\<Union>n \<in> set ns. nodes n)"
| "nodes (Import names) = {Import names}"
| "nodes (ImportFrom m names) = {ImportFrom m names}"

text \<open>
  What a set of import names contributes when each is resolved: the origins of the
  names that resolve to a spec with a non-empty origin, and the pairs for the names
  whose resolution raises one of the three exception classes that are caught.
\<close>

definition resolved_origins :: "'fs runtime \<Rightarrow> 'fs \<Rightarrow> string set \<Rightarrow> path set" where
  "resolved_origins rt fs names =
     {file. \<exists>n \<in> names.
        find_spec rt fs (top_level_name n) = Inr (Some (ModuleSpec (Some file))) \<and> file \<noteq> []}"

definition caught_failures :: "'fs runtime \<Rightarrow> 'fs \<Rightarrow> string set \<Rightarrow> (string \<times> string) set" where
  "caught_failures rt fs names =
     {(n, msg) | n msg. n \<in> names \<and>
        (\<exists>c \<in> {ImportError, AttributeError, ModuleNotFoundError}.
           find_spec rt fs (top_level_name n) = Inl (c, msg))}"

text \<open>
  The large set and the inventory are in step: every entry of the inventory holds the
  metadata of its path, and a path is large exactly when its entry exceeds the threshold.
\<close>

definition large_agrees :: "'fs runtime \<Rightarrow> config \<Rightarrow> 'fs \<Rightarrow> scan_state \<Rightarrow> bool" where
  "large_agrees rt cfg fs s \<longleftrightarrow>
     (\<forall>p info. map_of (all_files s) p = Some info \<longrightarrow> get_file_info rt fs p = Inr info) \<and>
     (\<forall>p. p \<in> large_files s \<longleftrightarrow>
        (\<exists>info. map_of (all_files s) p = Some info \<and> size info > SIZE_THRESHOLD cfg))"

text \<open>
  \<^verbatim>\<open>sum(selected)\<close>, the number of selected options, and the invariant of the selection
  state: the flags are as many as the options and the cursor is an index of an option.
\<close>

definition sum_selected :: "bool list \<Rightarrow> int" where
  "sum_selected sel = sum_list (map (\<lambda>b. if b then 1 else 0) sel)"

definition menu_invariant :: "string list \<Rightarrow> menu_state \<Rightarrow> bool" where
  "menu_invariant options st \<longleftrightarrow>
     length (selected st) = length options \<and>
     0 \<le> current st \<and> current st < int (length options) \<and>
     0 \<le> sum_selected (selected st) \<and> sum_selected (selected st) \<le> int (length options)"

text \<open>The keys that the terminal sends for the arrows.\<close>

definition key_up :: string where
  "key_up = [CHR 0x1B, CHR ''['', CHR ''A'']"

definition key_down :: string where
  "key_down = [CHR 0x1B, CHR ''['', CHR ''B'']"

section \<open>The import extractor\<close>

text \<open>\<^verbatim>\<open>ast.walk\<close> visits exactly the nodes of the tree.\<close>

lemma nodes_children: "nodes n = insert n (\<Union>c \<in> set (iter_child_nodes n). nodes c)"
  by (cases n) simp_all

lemma set_walk_queue: "set (walk_queue todo) = (\<Union>n \<in> set todo. nodes n)"
proof (induction todo rule: walk_queue.induct)
  case 1
  show ?case by simp
next
  case (2 n todo)
  have "nodes n = insert n (\<Union>c \<in> set (iter_child_nodes n). nodes c)"
    by (rule nodes_children)
  with 2 show ?case by auto
qed

lemma set_walk: "set (walk tree) = nodes tree"
  by (simp add: walk_def set_walk_queue nodes_children [symmetric])

lemma fold_insert_image: "fold (\<lambda>a. insert (f a)) xs S = S \<union> f ` set xs"
  by (induction xs arbitrary: S) auto

lemma add_imports_union: "add_imports n S = S \<union> add_imports n {}"
  by (cases n) (auto simp: fold_insert_image Let_def)

lemma fold_add_imports: "fold add_imports ns S = S \<union> (\<Union>n \<in> set ns. add_imports n {})"
proof (induction ns arbitrary: S)
  case Nil
  show ?case by simp
next
  case (Cons n ns)
  have "add_imports n S = S \<union> add_imports n {}" by (rule add_imports_union)
  with Cons show ?case by auto
qed

lemma add_imports_empty:
  "add_imports n {} =
     (case n of
        Import names \<Rightarrow> set names
      | ImportFrom m names \<Rightarrow> (\<lambda>Y. (case m of None \<Rightarrow> [] | Some X \<Rightarrow> X) @ ''.'' @ Y) ` set names
      | Other ns \<Rightarrow> {})"
  by (cases n) (auto simp: fold_insert_image split: option.splits)

lemma imports_of_tree_eq:
  "imports_of_tree tree =
     {M. \<exists>names. Import names \<in> set (walk tree) \<and> M \<in> set names} \<union>
     {X @ ''.'' @ Y | X Y names. ImportFrom (Some X) names \<in> set (walk tree) \<and> Y \<in> set names} \<union>
     {''.'' @ Y | Y names. ImportFrom None names \<in> set (walk tree) \<and> Y \<in> set names}"
  (is "_ = ?A \<union> ?B \<union> ?C")
proof (rule set_eqI)
  fix x
  have "x \<in> imports_of_tree tree \<longleftrightarrow> (\<exists>n \<in> set (walk tree). x \<in> add_imports n {})"
    by (simp add: imports_of_tree_def fold_add_imports)
  also have "\<dots> \<longleftrightarrow> x \<in> ?A \<union> ?B \<union> ?C"
  proof
    assume "\<exists>n \<in> set (walk tree). x \<in> add_imports n {}"
    then obtain n where n: "n \<in> set (walk tree)" "x \<in> add_imports n {}" by blast
    show "x \<in> ?A \<union> ?B \<union> ?C"
    proof (cases n)
      case (Import names)
      with n show ?thesis by (auto simp: add_imports_empty)
    next
      case (ImportFrom m names)
      with n show ?thesis by (cases m) (auto simp: add_imports_empty)
    next
      case (Other ns)
      with n show ?thesis by (simp add: add_imports_empty)
    qed
  next
    assume "x \<in> ?A \<union> ?B \<union> ?C"
    then consider (a) "x \<in> ?A" | (b) "x \<in> ?B" | (c) "x \<in> ?C" by blast
    then show "\<exists>n \<in> set (walk tree). x \<in> add_imports n {}"
    proof cases
      case a
      then obtain names where "Import names \<in> set (walk tree)" "x \<in> set names" by blast
      then show ?thesis by (intro bexI[of _ "Import names"]) (simp_all add: add_imports_empty)
    next
      case b
      then obtain X Y names where "ImportFrom (Some X) names \<in> set (walk tree)" "Y \<in> set names"
        "x = X @ ''.'' @ Y" by blast
      then show ?thesis
        by (intro bexI[of _ "ImportFrom (Some X) names"]) (simp_all add: add_imports_empty)
    next
      case c
      then obtain Y names where "ImportFrom None names \<in> set (walk tree)" "Y \<in> set names"
        "x = ''.'' @ Y" by blast
      then show ?thesis
        by (intro bexI[of _ "ImportFrom None names"]) (simp_all add: add_imports_empty)
    qed
  qed
  finally show "x \<in> imports_of_tree tree \<longleftrightarrow> x \<in> ?A \<union> ?B \<union> ?C" .
qed

text \<open>Facts about the concrete runtime.\<close>

lemma walk_demo_tree: "walk demo_tree = [Other
   [Import [''os'', ''nosuchmod''],
    ImportFrom (Some ''helpers'') [''util''], ImportFrom None [''sibling''],
    Other [Import [''broken'', ''os'']]],
  Import [''os'', ''nosuchmod''], ImportFrom (Some ''helpers'') [''util''],
  ImportFrom None [''sibling''], Other [Import [''broken'', ''os'']],
  Import [''broken'', ''os'']]"
  by (simp add: walk_def demo_tree_def)

lemma demo_imports: "imports_of_tree demo_tree = {''os'', ''nosuchmod'', ''helpers.util'', ''.sibling'', ''broken''}"
  by (auto simp: imports_of_tree_def walk_demo_tree)

lemma demo_files_disk: "demo_files demo_disk = [''/proj/app.py'', ''/proj/helpers.py'', ''/proj/unrelated.py'', ''/proj/big.py'', ''/proj/edge.py'', ''/proj/notes.txt'', ''/proj/sub/app.py'']"
  by (simp add: demo_files_def demo_disk_def demo_join_def)

lemma demo_parse_app: "parse_source demo_rt demo_disk ''/proj/app.py'' = Inr demo_tree"
  by (simp add: demo_rt_def demo_parse_def demo_files_disk)

text \<open>
  C6: for every source file that parses, \<^verbatim>\<open>get_imported_modules\<close> returns a set that holds
  exactly: the name \<open>M\<close> of each alias of each \<^verbatim>\<open>import M\<close> statement in the tree, the
  name \<open>X.Y\<close> for each alias \<open>Y\<close> of each \<^verbatim>\<open>from X import Y\<close> statement, and \<open>.Y\<close>, with an
  empty prefix, where the statement has no module. Being a set, it holds each name once.
\<close>

theorem get_imported_modules_names:
  assumes "parse_source rt fs file_path = Inr tree"
  shows "get_imported_modules rt fs file_path =
     Inr ({M. \<exists>names. Import names \<in> set (walk tree) \<and> M \<in> set names} \<union>
          {X @ ''.'' @ Y | X Y names.
             ImportFrom (Some X) names \<in> set (walk tree) \<and> Y \<in> set names} \<union>
          {''.'' @ Y | Y names. ImportFrom None names \<in> set (walk tree) \<and> Y \<in> set names})"
  using assms by (simp add: get_imported_modules_def imports_of_tree_eq)

theorem get_imported_modules_names_witness:
  "parse_source demo_rt demo_disk ''/proj/app.py'' = Inr demo_tree \<and>
   get_imported_modules demo_rt demo_disk ''/proj/app.py'' =
     Inr {''os'', ''nosuchmod'', ''helpers.util'', ''.sibling'', ''broken''}"
  using get_imported_modules_names [OF demo_parse_app]
  by (simp add: demo_parse_app get_imported_modules_def demo_imports)

section \<open>The scan loop\<close>

text \<open>What resolving import names changes in the state of the scan.\<close>

lemma resolve_import_frame:
  "resolve_import rt fs n s = (r, s') \<Longrightarrow>
     all_files s' = all_files s \<and> large_files s' = large_files s \<and>
     errors_printed s' = errors_printed s \<and>
     used_files s \<subseteq> used_files s' \<and> problematic_imports s \<subseteq> problematic_imports s'"
  by (auto simp: resolve_import_def split: sum.splits option.splits if_splits)

lemma resolve_imports_frame:
  "resolve_imports rt fs names s = (r, s') \<Longrightarrow>
     all_files s' = all_files s \<and> large_files s' = large_files s \<and>
     errors_printed s' = errors_printed s \<and>
     used_files s \<subseteq> used_files s' \<and> problematic_imports s \<subseteq> problematic_imports s'"
proof (induction names arbitrary: s)
  case Nil
  then show ?case by simp
next
  case (Cons n names)
  obtain r1 s1 where step: "resolve_import rt fs n s = (r1, s1)"
    by (cases "resolve_import rt fs n s")
  note f1 = resolve_import_frame [OF step]
  show ?case
  proof (cases r1)
    case None
    with Cons.prems step have "resolve_imports rt fs names s1 = (r, s')" by simp
    from Cons.IH [OF this] f1 show ?thesis by auto
  next
    case (Some e)
    with Cons.prems step have "s' = s1" by simp
    with f1 show ?thesis by simp
  qed
qed

lemma resolve_import_caught:
  assumes "find_spec rt fs (top_level_name n) = Inl (c, msg)"
    and "c \<in> {ImportError, AttributeError, ModuleNotFoundError}"
  shows "resolve_import rt fs n s =
           (None, s\<lparr>problematic_imports := insert (n, msg) (problematic_imports s)\<rparr>)"
  using assms by (auto simp: resolve_import_def)

lemma resolve_import_silent:
  assumes "find_spec rt fs (top_level_name n) = Inr None \<or>
           find_spec rt fs (top_level_name n) = Inr (Some (ModuleSpec None)) \<or>
           find_spec rt fs (top_level_name n) = Inr (Some (ModuleSpec (Some [])))"
  shows "resolve_import rt fs n s = (None, s)"
  using assms by (auto simp: resolve_import_def)

lemma resolve_import_ok:
  assumes "\<forall>c msg. find_spec rt fs (top_level_name n) = Inl (c, msg) \<longrightarrow>
             c \<in> {ImportError, AttributeError, ModuleNotFoundError}"
  shows "\<exists>s'. resolve_import rt fs n s = (None, s') \<and>
           used_files s' = used_files s \<union> resolved_origins rt fs {n} \<and>
           problematic_imports s' = problematic_imports s \<union> caught_failures rt fs {n}"
proof (cases "find_spec rt fs (top_level_name n)")
  case (Inl e)
  obtain c msg where e: "e = (c, msg)" by (cases e)
  with Inl assms have "c \<in> {ImportError, AttributeError, ModuleNotFoundError}" by blast
  with Inl e show ?thesis
    by (auto simp: resolve_import_def resolved_origins_def caught_failures_def)
next
  case (Inr spec)
  then show ?thesis
  proof (cases spec)
    case None
    with Inr show ?thesis
      by (auto simp: resolve_import_def resolved_origins_def caught_failures_def)
  next
    case (Some sp)
    obtain og where sp: "sp = ModuleSpec og" by (cases sp)
    with Inr Some show ?thesis
      by (cases og) (auto simp: resolve_import_def resolved_origins_def caught_failures_def)
  qed
qed

lemma resolved_origins_insert:
  "resolved_origins rt fs (insert n N) = resolved_origins rt fs {n} \<union> resolved_origins rt fs N"
  by (auto simp: resolved_origins_def)

lemma caught_failures_insert:
  "caught_failures rt fs (insert n N) = caught_failures rt fs {n} \<union> caught_failures rt fs N"
  by (auto simp: caught_failures_def)

lemma resolve_imports_ok:
  assumes "\<forall>n \<in> set names. \<forall>c msg. find_spec rt fs (top_level_name n) = Inl (c, msg) \<longrightarrow>
             c \<in> {ImportError, AttributeError, ModuleNotFoundError}"
  shows "\<exists>s'. resolve_imports rt fs names s = (None, s') \<and>
           used_files s' = used_files s \<union> resolved_origins rt fs (set names) \<and>
           problematic_imports s' = problematic_imports s \<union> caught_failures rt fs (set names)"
  using assms
proof (induction names arbitrary: s)
  case Nil
  show ?case by (simp add: resolved_origins_def caught_failures_def)
next
  case (Cons n names)
  from Cons.prems have "\<forall>c msg. find_spec rt fs (top_level_name n) = Inl (c, msg) \<longrightarrow>
             c \<in> {ImportError, AttributeError, ModuleNotFoundError}" by simp
  from resolve_import_ok [OF this, of s] obtain s1 where
    s1: "resolve_import rt fs n s = (None, s1)"
      "used_files s1 = used_files s \<union> resolved_origins rt fs {n}"
      "problematic_imports s1 = problematic_imports s \<union> caught_failures rt fs {n}"
    by blast
  from Cons.prems have "\<forall>n \<in> set names. \<forall>c msg.
      find_spec rt fs (top_level_name n) = Inl (c, msg) \<longrightarrow>
      c \<in> {ImportError, AttributeError, ModuleNotFoundError}" by simp
  from Cons.IH [OF this, of s1] obtain s' where
    s': "resolve_imports rt fs names s1 = (None, s')"
      "used_files s' = used_files s1 \<union> resolved_origins rt fs (set names)"
      "problematic_imports s' = problematic_imports s1 \<union> caught_failures rt fs (set names)"
    by blast
  have "resolve_imports rt fs (n # names) s = (None, s')"
    using s1(1) s'(1) by simp
  moreover have "used_files s' = used_files s \<union> resolved_origins rt fs (set (n # names))"
    using s1(2) s'(2) resolved_origins_insert [of rt fs n "set names"] by auto
  moreover have "problematic_imports s' =
      problematic_imports s \<union> caught_failures rt fs (set (n # names))"
    using s1(3) s'(3) caught_failures_insert [of rt fs n "set names"] by auto
  ultimately show ?case by blast
qed


lemma record_result_None [simp]: "record_result rt cfg fs None s = s"
  by (simp add: record_result_def)

lemma record_result_main:
  "record_result rt cfg fs (Some (p, info, True)) s =
     (case get_imported_modules rt fs p of
        Inl e \<Rightarrow>
          s\<lparr>all_files := AList.update p info (all_files s),
            large_files := (if size info > SIZE_THRESHOLD cfg
                            then insert p (large_files s) else large_files s),
            used_files := insert p (used_files s),
            errors_printed := errors_printed s @ [(p, snd e)]\<rparr>
      | Inr names \<Rightarrow>
          (case resolve_imports rt fs (set_iter rt names)
                  (s\<lparr>all_files := AList.update p info (all_files s),
                     large_files := (if size info > SIZE_THRESHOLD cfg
                                     then insert p (large_files s) else large_files s),
                     used_files := insert p (used_files s)\<rparr>) of
             (None, s4) \<Rightarrow> s4
           | (Some e, s4) \<Rightarrow> s4\<lparr>errors_printed := errors_printed s4 @ [(p, snd e)]\<rparr>))"
  by (simp add: record_result_def Let_def split: sum.splits)

lemma record_result_other:
  "record_result rt cfg fs (Some (p, info, False)) s =
     s\<lparr>all_files := AList.update p info (all_files s),
       large_files := (if size info > SIZE_THRESHOLD cfg
                       then insert p (large_files s) else large_files s)\<rparr>"
  by (simp add: record_result_def Let_def)

lemma record_result_inventory:
  "all_files (record_result rt cfg fs (Some (p, info, m)) s) = AList.update p info (all_files s)"
proof (cases m)
  case False
  then show ?thesis by (simp add: record_result_other)
next
  case True
  show ?thesis
  proof (cases "get_imported_modules rt fs p")
    case (Inl e)
    with True show ?thesis by (simp add: record_result_main)
  next
    case (Inr imps)
    let ?s3 = "s\<lparr>all_files := AList.update p info (all_files s),
                   large_files := (if size info > SIZE_THRESHOLD cfg
                                   then insert p (large_files s) else large_files s),
                   used_files := insert p (used_files s)\<rparr>"
    obtain r s4 where res: "resolve_imports rt fs (set_iter rt imps) ?s3 = (r, s4)"
      by (cases "resolve_imports rt fs (set_iter rt imps) ?s3")
    from resolve_imports_frame [OF res] have "all_files s4 = AList.update p info (all_files s)"
      by simp
    with True Inr res show ?thesis
      by (cases r) (simp_all add: record_result_main)
  qed
qed

lemma record_result_large:
  "large_files (record_result rt cfg fs (Some (p, info, m)) s) =
     (if size info > SIZE_THRESHOLD cfg then insert p (large_files s) else large_files s)"
proof (cases m)
  case False
  then show ?thesis by (simp add: record_result_other)
next
  case True
  show ?thesis
  proof (cases "get_imported_modules rt fs p")
    case (Inl e)
    with True show ?thesis by (simp add: record_result_main)
  next
    case (Inr imps)
    let ?s3 = "s\<lparr>all_files := AList.update p info (all_files s),
                   large_files := (if size info > SIZE_THRESHOLD cfg
                                   then insert p (large_files s) else large_files s),
                   used_files := insert p (used_files s)\<rparr>"
    obtain r s4 where res: "resolve_imports rt fs (set_iter rt imps) ?s3 = (r, s4)"
      by (cases "resolve_imports rt fs (set_iter rt imps) ?s3")
    from resolve_imports_frame [OF res] have "large_files s4 = large_files ?s3"
      by simp
    with True Inr res show ?thesis
      by (cases r) (simp_all add: record_result_main)
  qed
qed

lemma record_result_grows:
  "used_files s \<subseteq> used_files (record_result rt cfg fs result s) \<and>
   problematic_imports s \<subseteq> problematic_imports (record_result rt cfg fs result s) \<and>
   set (errors_printed s) \<subseteq> set (errors_printed (record_result rt cfg fs result s))"
proof (cases result)
  case None
  then show ?thesis by simp
next
  case (Some t)
  obtain p info m where t: "t = (p, info, m)" by (cases t)
  show ?thesis
  proof (cases m)
    case False
    with Some t show ?thesis by (simp add: record_result_other)
  next
    case True
    show ?thesis
    proof (cases "get_imported_modules rt fs p")
      case (Inl e)
      with True Some t show ?thesis by (auto simp: record_result_main)
    next
      case (Inr imps)
      let ?s3 = "s\<lparr>all_files := AList.update p info (all_files s),
                     large_files := (if size info > SIZE_THRESHOLD cfg
                                     then insert p (large_files s) else large_files s),
                     used_files := insert p (used_files s)\<rparr>"
      obtain r s4 where res: "resolve_imports rt fs (set_iter rt imps) ?s3 = (r, s4)"
        by (cases "resolve_imports rt fs (set_iter rt imps) ?s3")
      from resolve_imports_frame [OF res]
      have "used_files s \<subseteq> used_files s4" "problematic_imports s \<subseteq> problematic_imports s4"
        "errors_printed s4 = errors_printed s"
        by auto
      with True Inr res Some t show ?thesis
        by (cases r) (auto simp: record_result_main)
    qed
  qed
qed

text \<open>What the loop body does for a file that carries the entry basename.\<close>

lemma record_result_entry:
  "p \<in> used_files (record_result rt cfg fs (Some (p, info, True)) s)"
proof (cases "get_imported_modules rt fs p")
  case (Inl e)
  then show ?thesis by (simp add: record_result_main)
next
  case (Inr imps)
  let ?s3 = "s\<lparr>all_files := AList.update p info (all_files s),
                 large_files := (if size info > SIZE_THRESHOLD cfg
                                 then insert p (large_files s) else large_files s),
                 used_files := insert p (used_files s)\<rparr>"
  obtain r s4 where res: "resolve_imports rt fs (set_iter rt imps) ?s3 = (r, s4)"
    by (cases "resolve_imports rt fs (set_iter rt imps) ?s3")
  from resolve_imports_frame [OF res] have "p \<in> used_files s4" by auto
  with Inr res show ?thesis
    by (cases r) (simp_all add: record_result_main)
qed

lemma record_result_entry_imports:
  assumes "get_imported_modules rt fs p = Inr imports"
    and "set (set_iter rt imports) = imports"
    and "\<forall>n \<in> imports. \<forall>c msg. find_spec rt fs (top_level_name n) = Inl (c, msg) \<longrightarrow>
           c \<in> {ImportError, AttributeError, ModuleNotFoundError}"
  shows "used_files (record_result rt cfg fs (Some (p, info, True)) s) =
           insert p (used_files s) \<union> resolved_origins rt fs imports"
    and "problematic_imports (record_result rt cfg fs (Some (p, info, True)) s) =
           problematic_imports s \<union> caught_failures rt fs imports"
proof -
  let ?s3 = "s\<lparr>all_files := AList.update p info (all_files s),
                 large_files := (if size info > SIZE_THRESHOLD cfg
                                 then insert p (large_files s) else large_files s),
                 used_files := insert p (used_files s)\<rparr>"
  from assms(2,3) have "\<forall>n \<in> set (set_iter rt imports). \<forall>c msg.
      find_spec rt fs (top_level_name n) = Inl (c, msg) \<longrightarrow>
      c \<in> {ImportError, AttributeError, ModuleNotFoundError}" by simp
  from resolve_imports_ok [OF this, of ?s3] assms(2) obtain s4 where
    s4: "resolve_imports rt fs (set_iter rt imports) ?s3 = (None, s4)"
      "used_files s4 = used_files ?s3 \<union> resolved_origins rt fs imports"
      "problematic_imports s4 = problematic_imports ?s3 \<union> caught_failures rt fs imports"
    by auto
  have eq: "record_result rt cfg fs (Some (p, info, True)) s = s4"
    using assms(1) s4(1) by (simp add: record_result_main)
  show "used_files (record_result rt cfg fs (Some (p, info, True)) s) =
           insert p (used_files s) \<union> resolved_origins rt fs imports"
    using eq s4(2) by simp
  show "problematic_imports (record_result rt cfg fs (Some (p, info, True)) s) =
           problematic_imports s \<union> caught_failures rt fs imports"
    using eq s4(3) by simp
qed

text \<open>
  An exception of the extractor, or of a resolution that the inner \<^verbatim>\<open>except\<close> does not
  catch, is printed with the path of the entry file.
\<close>

lemma record_result_entry_unparsed:
  assumes "get_imported_modules rt fs p = Inl e"
  shows "(p, snd e) \<in> set (errors_printed (record_result rt cfg fs (Some (p, info, True)) s))"
  using assms by (simp add: record_result_main)

lemma resolve_imports_uncaught:
  assumes "\<exists>n \<in> set names. \<exists>c msg. find_spec rt fs (top_level_name n) = Inl (c, msg) \<and>
             c \<notin> {ImportError, AttributeError, ModuleNotFoundError}"
  shows "\<exists>n \<in> set names. \<exists>c msg s'. find_spec rt fs (top_level_name n) = Inl (c, msg) \<and>
           c \<notin> {ImportError, AttributeError, ModuleNotFoundError} \<and>
           resolve_imports rt fs names s = (Some (c, msg), s')"
  using assms
proof (induction names arbitrary: s)
  case Nil
  then show ?case by simp
next
  case (Cons n names)
  obtain r s1 where step: "resolve_import rt fs n s = (r, s1)"
    by (cases "resolve_import rt fs n s")
  show ?case
  proof (cases r)
    case (Some e)
    obtain c msg where e: "e = (c, msg)" by (cases e)
    from step Some e have "find_spec rt fs (top_level_name n) = Inl (c, msg) \<and>
        c \<notin> {ImportError, AttributeError, ModuleNotFoundError}"
      by (auto simp: resolve_import_def split: sum.splits option.splits if_splits)
    moreover from step Some e have "resolve_imports rt fs (n # names) s = (Some (c, msg), s1)"
      by simp
    ultimately show ?thesis by auto
  next
    case None
    with step have "\<not> (\<exists>c msg. find_spec rt fs (top_level_name n) = Inl (c, msg) \<and>
        c \<notin> {ImportError, AttributeError, ModuleNotFoundError})"
      by (auto simp: resolve_import_def split: sum.splits option.splits if_splits)
    with Cons.prems have "\<exists>n \<in> set names. \<exists>c msg.
        find_spec rt fs (top_level_name n) = Inl (c, msg) \<and>
        c \<notin> {ImportError, AttributeError, ModuleNotFoundError}"
      by auto
    from Cons.IH [OF this, of s1] obtain m c msg s' where
      "m \<in> set names" "find_spec rt fs (top_level_name m) = Inl (c, msg)"
      "c \<notin> {ImportError, AttributeError, ModuleNotFoundError}"
      "resolve_imports rt fs names s1 = (Some (c, msg), s')"
      by blast
    with step None show ?thesis by auto
  qed
qed

lemma record_result_entry_uncaught:
  assumes "get_imported_modules rt fs p = Inr names"
    and "set (set_iter rt names) = names"
    and "\<exists>n \<in> names. \<exists>c msg. find_spec rt fs (top_level_name n) = Inl (c, msg) \<and>
           c \<notin> {ImportError, AttributeError, ModuleNotFoundError}"
  shows "\<exists>n \<in> names. \<exists>c msg. find_spec rt fs (top_level_name n) = Inl (c, msg) \<and>
           c \<notin> {ImportError, AttributeError, ModuleNotFoundError} \<and>
           (p, msg) \<in> set (errors_printed (record_result rt cfg fs (Some (p, info, True)) s))"
proof -
  let ?s3 = "s\<lparr>all_files := AList.update p info (all_files s),
                 large_files := (if size info > SIZE_THRESHOLD cfg
                                 then insert p (large_files s) else large_files s),
                 used_files := insert p (used_files s)\<rparr>"
  from assms(2,3) have "\<exists>n \<in> set (set_iter rt names). \<exists>c msg.
      find_spec rt fs (top_level_name n) = Inl (c, msg) \<and>
      c \<notin> {ImportError, AttributeError, ModuleNotFoundError}" by simp
  from resolve_imports_uncaught [OF this, of ?s3] assms(2) obtain n c msg s4 where
    n: "n \<in> names" "find_spec rt fs (top_level_name n) = Inl (c, msg)"
      "c \<notin> {ImportError, AttributeError, ModuleNotFoundError}" and
    res: "resolve_imports rt fs (set_iter rt names) ?s3 = (Some (c, msg), s4)"
    by auto
  from assms(1) res
  have "(p, msg) \<in> set (errors_printed (record_result rt cfg fs (Some (p, info, True)) s))"
    by (simp add: record_result_main)
  with n show ?thesis by blast
qed

lemma fold_record_result_grows:
  "used_files s \<subseteq> used_files (fold (record_result rt cfg fs) results s) \<and>
   problematic_imports s \<subseteq> problematic_imports (fold (record_result rt cfg fs) results s) \<and>
   set (errors_printed s) \<subseteq> set (errors_printed (fold (record_result rt cfg fs) results s))"
proof (induction results arbitrary: s)
  case Nil
  show ?case by simp
next
  case (Cons r results)
  from record_result_grows [of s rt cfg fs r] Cons [of "record_result rt cfg fs r s"]
  show ?case by auto
qed

lemma fold_record_result_member:
  assumes "r \<in> set results"
  shows "\<exists>s1. used_files (record_result rt cfg fs r s1)
                 \<subseteq> used_files (fold (record_result rt cfg fs) results s) \<and>
              problematic_imports (record_result rt cfg fs r s1)
                 \<subseteq> problematic_imports (fold (record_result rt cfg fs) results s) \<and>
              set (errors_printed (record_result rt cfg fs r s1))
                 \<subseteq> set (errors_printed (fold (record_result rt cfg fs) results s))"
  using assms
proof (induction results arbitrary: s)
  case Nil
  then show ?case by simp
next
  case (Cons x results)
  show ?case
  proof (cases "r = x")
    case True
    from fold_record_result_grows [of "record_result rt cfg fs x s" rt cfg fs results] True
    show ?thesis by (intro exI [of _ s]) simp
  next
    case False
    with Cons.prems have "r \<in> set results" by simp
    from Cons.IH [OF this, of "record_result rt cfg fs x s"] show ?thesis by simp
  qed
qed

text \<open>The keys of the inventory are the paths of the results.\<close>

lemma fold_record_result_keys:
  "fst ` set (all_files (fold (record_result rt cfg fs) results s)) =
     fst ` set (all_files s) \<union> {p. \<exists>info m. Some (p, info, m) \<in> set results}"
proof (induction results arbitrary: s)
  case Nil
  show ?case by simp
next
  case (Cons r results)
  show ?case
  proof (cases r)
    case None
    with Cons [of s] show ?thesis by auto
  next
    case (Some t)
    obtain p info m where t: "t = (p, info, m)" by (cases t)
    have "fst ` set (all_files (record_result rt cfg fs r s)) = insert p (fst ` set (all_files s))"
      unfolding Some t record_result_inventory by (simp add: dom_update)
    with Cons [of "record_result rt cfg fs r s"] Some t show ?thesis by auto
  qed
qed

text \<open>The results of \<^verbatim>\<open>process_file\<close>.\<close>

lemma process_file_Some:
  assumes "process_file rt cfg fs (file_path, pats, ign, main_file) = Inr (Some (p, info, m))"
  shows "p = file_path \<and> get_file_info rt fs p = Inr info \<and> m = (basename rt p = main_file)"
  using assms by (auto simp: process_file_def split: if_splits sum.splits)

lemma map_process_file_Some:
  assumes "map_process_file rt cfg fs args = Inr results"
    and "Some (p, info, m) \<in> set results"
  shows "\<exists>pats ign main_file. (p, pats, ign, main_file) \<in> set args \<and>
           get_file_info rt fs p = Inr info \<and> m = (basename rt p = main_file)"
  using assms
proof (induction args arbitrary: results)
  case Nil
  then show ?case by simp
next
  case (Cons a args)
  obtain file_path pats ign main_file where a: "a = (file_path, pats, ign, main_file)"
    by (cases a)
  from Cons.prems(1) obtain r rs where
    r: "process_file rt cfg fs a = Inr r" and
    rs: "map_process_file rt cfg fs args = Inr rs" and
    results: "results = r # rs"
    by (auto split: sum.splits)
  from Cons.prems(2) results consider "r = Some (p, info, m)" | "Some (p, info, m) \<in> set rs"
    by auto
  then show ?case
  proof cases
    case 1
    with r a process_file_Some [of rt cfg fs file_path pats ign main_file p info m]
    show ?thesis by auto
  next
    case 2
    from Cons.IH [OF rs 2] show ?thesis by auto
  qed
qed

lemma map_process_file_mem:
  assumes "map_process_file rt cfg fs args = Inr results"
    and "a \<in> set args"
    and "process_file rt cfg fs a = Inr r"
  shows "r \<in> set results"
  using assms
proof (induction args arbitrary: results)
  case Nil
  then show ?case by simp
next
  case (Cons x args)
  from Cons.prems(1) obtain y ys where
    y: "process_file rt cfg fs x = Inr y" and
    ys: "map_process_file rt cfg fs args = Inr ys" and
    results: "results = y # ys"
    by (auto split: sum.splits)
  show ?case
  proof (cases "a = x")
    case True
    with y Cons.prems(3) results show ?thesis by simp
  next
    case False
    with Cons.prems(2) have "a \<in> set args" by simp
    from Cons.IH [OF ys this Cons.prems(3)] results show ?thesis by simp
  qed
qed

lemma scan_results_Some:
  assumes "scan_results rt cfg fs directory = Inr results"
    and "Some (p, info, m) \<in> set results"
  shows "get_file_info rt fs p = Inr info \<and> m = (basename rt p = MAIN_FILE cfg)"
proof -
  from assms(1) obtain pats where
    "map_process_file rt cfg fs (file_list rt cfg fs directory pats) = Inr results"
    by (auto simp: scan_results_def split: sum.splits if_splits)
  from map_process_file_Some [OF this assms(2)] obtain pats' ign main_file where
    "(p, pats', ign, main_file) \<in> set (file_list rt cfg fs directory pats)"
    "get_file_info rt fs p = Inr info" "m = (basename rt p = main_file)"
    by blast
  moreover from this(1) have "main_file = MAIN_FILE cfg"
    by (auto simp: file_list_def)
  ultimately show ?thesis by simp
qed

lemma large_agrees_record_result:
  assumes "large_agrees rt cfg fs s"
    and "\<forall>p info m. r = Some (p, info, m) \<longrightarrow> get_file_info rt fs p = Inr info"
  shows "large_agrees rt cfg fs (record_result rt cfg fs r s)"
proof (cases r)
  case None
  with assms show ?thesis by simp
next
  case (Some t)
  obtain p info m where t: "t = (p, info, m)" by (cases t)
  with Some assms(2) have info: "get_file_info rt fs p = Inr info" by simp
  have old: "\<And>i. map_of (all_files s) p = Some i \<Longrightarrow> i = info"
    using assms(1) info by (auto simp: large_agrees_def)
  show ?thesis
    unfolding large_agrees_def Some t record_result_inventory record_result_large
    using assms(1) info old
    by (auto simp: large_agrees_def update_conv' split: if_splits)
qed

lemma large_agrees_fold:
  assumes "large_agrees rt cfg fs s"
    and "\<forall>p info m. Some (p, info, m) \<in> set results \<longrightarrow> get_file_info rt fs p = Inr info"
  shows "large_agrees rt cfg fs (fold (record_result rt cfg fs) results s)"
  using assms
proof (induction results arbitrary: s)
  case Nil
  then show ?case by simp
next
  case (Cons r results)
  from Cons.prems have "large_agrees rt cfg fs (record_result rt cfg fs r s)"
    by (intro large_agrees_record_result) auto
  moreover from Cons.prems(2) have "\<forall>p info m. Some (p, info, m) \<in> set results \<longrightarrow>
      get_file_info rt fs p = Inr info" by auto
  ultimately have "large_agrees rt cfg fs
      (fold (record_result rt cfg fs) results (record_result rt cfg fs r s))"
    by (rule Cons.IH)
  then show ?case by simp
qed

text \<open>A scan that ends has run the loop body over the results of all files, in order.\<close>

lemma lazy_loop_None:
  assumes "lazy_loop rt cfg fs args s = (None, s')"
  shows "\<exists>results. map_process_file rt cfg fs args = Inr results \<and>
           s' = fold (record_result rt cfg fs) results s"
  using assms
proof (induction args arbitrary: s)
  case Nil
  then show ?case by simp
next
  case (Cons a args)
  from Cons.prems obtain r where
    r: "process_file rt cfg fs a = Inr r" and
    rest: "lazy_loop rt cfg fs args (record_result rt cfg fs r s) = (None, s')"
    by (auto split: sum.splits)
  from Cons.IH [OF rest] obtain rs where
    "map_process_file rt cfg fs args = Inr rs"
    "s' = fold (record_result rt cfg fs) rs (record_result rt cfg fs r s)"
    by blast
  with r show ?case by simp
qed

lemma scan_Inr:
  assumes "scan rt cfg fs directory = Inr s"
  shows "\<exists>results. scan_results rt cfg fs directory = Inr results \<and>
           s = fold (record_result rt cfg fs) results initial_scan_state"
proof (cases "USE_PARALLEL cfg")
  case True
  with assms show ?thesis
    by (auto simp: scan_def scan_loop_def split: sum.splits)
next
  case False
  with assms obtain pats where
    pats: "parse_gitignore rt fs directory = Inr pats" and
    loop: "lazy_loop rt cfg fs (file_list rt cfg fs directory pats) initial_scan_state = (None, s)"
    by (auto simp: scan_def scan_loop_def split: sum.splits option.splits prod.splits)
  from lazy_loop_None [OF loop] pats False show ?thesis
    by (simp add: scan_results_def)
qed

text \<open>
  Conversely, when \<^verbatim>\<open>process_file\<close> raises for no file, the scan ends, with the same state
  in both branches.
\<close>

lemma lazy_loop_fold:
  assumes "map_process_file rt cfg fs args = Inr results"
  shows "lazy_loop rt cfg fs args s = (None, fold (record_result rt cfg fs) results s)"
  using assms
proof (induction args arbitrary: s results)
  case Nil
  then show ?case by simp
next
  case (Cons a args)
  from Cons.prems obtain r rs where
    r: "process_file rt cfg fs a = Inr r" and
    rs: "map_process_file rt cfg fs args = Inr rs" and
    results: "results = r # rs"
    by (auto split: sum.splits)
  from Cons.IH [OF rs, of "record_result rt cfg fs r s"] r results show ?case by simp
qed

lemma scan_ends:
  assumes "scan_results rt cfg fs directory = Inr results"
  shows "scan rt cfg fs directory =
           Inr (fold (record_result rt cfg fs) results initial_scan_state)"
proof (cases "USE_PARALLEL cfg")
  case True
  with assms show ?thesis by (simp add: scan_def scan_loop_def)
next
  case False
  from assms obtain pats where
    pats: "parse_gitignore rt fs directory = Inr pats" and
    "map_process_file rt cfg fs (file_list rt cfg fs directory pats) = Inr results"
    by (auto simp: scan_results_def split: sum.splits if_splits)
  from lazy_loop_fold [OF this(2), of initial_scan_state] pats False show ?thesis
    by (simp add: scan_def scan_loop_def)
qed

lemma large_agrees_scan:
  assumes "scan rt cfg fs directory = Inr s"
  shows "large_agrees rt cfg fs s"
proof -
  from scan_Inr [OF assms] obtain results where
    results: "scan_results rt cfg fs directory = Inr results" and
    s: "s = fold (record_result rt cfg fs) results initial_scan_state"
    by blast
  have "large_agrees rt cfg fs initial_scan_state"
    by (simp add: large_agrees_def initial_scan_state_def)
  moreover have "\<forall>p info m. Some (p, info, m) \<in> set results \<longrightarrow>
      get_file_info rt fs p = Inr info"
    using scan_results_Some [OF results] by blast
  ultimately show ?thesis unfolding s by (rule large_agrees_fold)
qed
text \<open>The scan of the concrete project.\<close>

lemma demo_scan_results:
  "scan_results demo_rt DEFAULT_CONFIG demo_disk ''/proj'' =
     Inr [Some (''/proj/app.py'', demo_info 100, True),
          Some (''/proj/helpers.py'', demo_info 100, False),
          Some (''/proj/unrelated.py'', demo_info 100, False),
          Some (''/proj/big.py'', demo_info 1048577, False),
          Some (''/proj/edge.py'', demo_info 1048576, False),
          None,
          Some (''/proj/sub/app.py'', demo_info 100, True)]"
  by code_simp

lemma demo_scan:
  "scan demo_rt DEFAULT_CONFIG demo_disk ''/proj'' =
     Inr \<lparr> used_files = {''/proj/app.py'', ''/usr/lib/python3/os.py'', ''/proj/helpers.py'',
                         ''/proj/sub/app.py''},
           all_files = demo_inventory,
           problematic_imports = {(''broken'', ''cannot import broken'')},
           large_files = {''/proj/big.py''},
           errors_printed = [] \<rparr>"
  by code_simp


lemma demo_get_imports:
  "get_imported_modules demo_rt demo_disk ''/proj/app.py'' =
     Inr {''os'', ''nosuchmod'', ''helpers.util'', ''.sibling'', ''broken''}"
  by code_simp

lemma demo_find_unused_files:
  "find_unused_files demo_rt DEFAULT_CONFIG demo_disk ''/proj'' =
     Inr ({''/proj/unrelated.py'', ''/proj/big.py'', ''/proj/edge.py''},
          {(''broken'', ''cannot import broken'')},
          {''/proj/big.py''},
          demo_inventory)"
  by code_simp

lemma builtin_scan:
  "scan demo_rt builtin_config builtin_disk ''/proj'' =
     Inr \<lparr> used_files = {''/proj/main.py'', ''built-in''},
           all_files = [(''/proj/main.py'', demo_info 100)],
           problematic_imports = {},
           large_files = {},
           errors_printed = [] \<rparr>"
  by code_simp

lemma builtin_get_imports:
  "get_imported_modules demo_rt builtin_disk ''/proj/main.py'' = Inr {''sys''}"
  by code_simp

section \<open>Claims about the scan\<close>

text \<open>
  C1 asks that every import name of an entry file whose resolution fails (the module is
  not found, is not importable, or has no physical origin, as a built-in or a namespace
  module) is recorded in the problematic imports and adds nothing to the used set. The
  loop records a name only in its \<^verbatim>\<open>except\<close> clause, when \<^verbatim>\<open>find_spec\<close> raises; the branch
  \<^verbatim>\<open>if spec and spec.origin\<close> has no \<^verbatim>\<open>else\<close>. In the first project \<^verbatim>\<open>/proj/app.py\<close> imports
  \<^verbatim>\<open>nosuchmod\<close>, for which \<^verbatim>\<open>find_spec\<close> returns \<^verbatim>\<open>None\<close>, and \<^verbatim>\<open>/proj/sub/app.py\<close> imports the
  namespace package \<^verbatim>\<open>ns\<close>, whose spec has no origin: neither name is among the
  problematic imports that \<^verbatim>\<open>find_unused_files\<close> returns. In the second project
  \<^verbatim>\<open>/proj/main.py\<close> imports the built-in module \<^verbatim>\<open>sys\<close>: the scan ends with no problematic
  import and with the text \<^verbatim>\<open>built-in\<close> in the used set.
\<close>

theorem unresolved_import_not_recorded:
  "get_imported_modules demo_rt demo_disk ''/proj/app.py'' =
     Inr {''os'', ''nosuchmod'', ''helpers.util'', ''.sibling'', ''broken''} \<and>
   find_spec demo_rt demo_disk (top_level_name ''nosuchmod'') = Inr None \<and>
   get_imported_modules demo_rt demo_disk ''/proj/sub/app.py'' = Inr {''ns''} \<and>
   find_spec demo_rt demo_disk (top_level_name ''ns'') = Inr (Some (ModuleSpec None)) \<and>
   find_unused_files demo_rt DEFAULT_CONFIG demo_disk ''/proj'' =
     Inr ({''/proj/unrelated.py'', ''/proj/big.py'', ''/proj/edge.py''},
          {(''broken'', ''cannot import broken'')},
          {''/proj/big.py''},
          demo_inventory) \<and>
   get_imported_modules demo_rt builtin_disk ''/proj/main.py'' = Inr {''sys''} \<and>
   find_spec demo_rt builtin_disk (top_level_name ''sys'') =
     Inr (Some (ModuleSpec (Some ''built-in''))) \<and>
   scan demo_rt builtin_config builtin_disk ''/proj'' =
     Inr \<lparr> used_files = {''/proj/main.py'', ''built-in''},
           all_files = [(''/proj/main.py'', demo_info 100)],
           problematic_imports = {},
           large_files = {},
           errors_printed = [] \<rparr>"
proof -
  have "get_imported_modules demo_rt demo_disk ''/proj/sub/app.py'' = Inr {''ns''}"
    by code_simp
  moreover have "find_spec demo_rt demo_disk (top_level_name ''nosuchmod'') = Inr None"
    by (simp add: demo_rt_def demo_find_spec_def top_level_name_def)
  moreover have "find_spec demo_rt demo_disk (top_level_name ''ns'') =
      Inr (Some (ModuleSpec None))"
    by (simp add: demo_rt_def demo_find_spec_def top_level_name_def)
  moreover have "find_spec demo_rt builtin_disk (top_level_name ''sys'') =
      Inr (Some (ModuleSpec (Some ''built-in'')))"
    by (simp add: demo_rt_def demo_find_spec_def top_level_name_def)
  ultimately show ?thesis
    using demo_get_imports demo_find_unused_files builtin_get_imports builtin_scan by simp
qed

text \<open>
  C3 (as amended): when the scan ends, every inventoried file whose basename is the
  configured entry basename has been treated as an entry file, not only the last one of
  the traversal. Each is in the used set, and the extraction of its imports has been
  attempted. If the extraction raises, a line \<^verbatim>\<open>Error processing\<close> with the path and the
  text of the exception has been printed. If it returns the names and every resolution
  returns or raises one of the three classes that are caught, the origins that the names
  resolve to are in the used set and the caught failures are in the problematic imports.
  If a resolution raises another exception, a line \<^verbatim>\<open>Error processing\<close> with the path and
  the text of such an exception has been printed. The loop over the names visits the
  elements of the set, each of them, in the order that \<open>set_iter\<close> gives.
\<close>

theorem every_entry_basename_file_is_entry:
  assumes "scan rt cfg fs directory = Inr s"
    and "map_of (all_files s) p = Some info"
    and "basename rt p = MAIN_FILE cfg"
  shows "p \<in> used_files s \<and>
         (get_imported_modules rt fs p = Inl e \<longrightarrow> (p, snd e) \<in> set (errors_printed s)) \<and>
         (get_imported_modules rt fs p = Inr names \<and> set (set_iter rt names) = names \<longrightarrow>
            (if \<forall>n \<in> names. \<forall>c msg. find_spec rt fs (top_level_name n) = Inl (c, msg) \<longrightarrow>
                  c \<in> {ImportError, AttributeError, ModuleNotFoundError}
             then resolved_origins rt fs names \<subseteq> used_files s \<and>
                  caught_failures rt fs names \<subseteq> problematic_imports s
             else \<exists>n \<in> names. \<exists>c msg. find_spec rt fs (top_level_name n) = Inl (c, msg) \<and>
                    c \<notin> {ImportError, AttributeError, ModuleNotFoundError} \<and>
                    (p, msg) \<in> set (errors_printed s)))"
proof -
  from scan_Inr [OF assms(1)] obtain results where
    results: "scan_results rt cfg fs directory = Inr results" and
    s: "s = fold (record_result rt cfg fs) results initial_scan_state"
    by blast
  from assms(2) have "p \<in> fst ` set (all_files s)"
    by (metis map_of_eq_None_iff option.distinct(1))
  then obtain info' m where mem: "Some (p, info', m) \<in> set results"
    unfolding s fold_record_result_keys by (auto simp: initial_scan_state_def)
  from scan_results_Some [OF results mem] assms(3) have m: "m = True" by simp
  from fold_record_result_member [OF mem, of rt cfg fs initial_scan_state]
  obtain s1 where
    s1: "used_files (record_result rt cfg fs (Some (p, info', True)) s1) \<subseteq> used_files s"
      "problematic_imports (record_result rt cfg fs (Some (p, info', True)) s1)
         \<subseteq> problematic_imports s"
      "set (errors_printed (record_result rt cfg fs (Some (p, info', True)) s1))
         \<subseteq> set (errors_printed s)"
    unfolding s m by blast
  have used: "p \<in> used_files s"
    using s1(1) record_result_entry [of p rt cfg fs info' s1] by auto
  have unparsed: "get_imported_modules rt fs p = Inl e \<longrightarrow> (p, snd e) \<in> set (errors_printed s)"
    using s1(3) record_result_entry_unparsed [of rt fs p e cfg info' s1] by auto
  have resolved: "get_imported_modules rt fs p = Inr names \<and> set (set_iter rt names) = names \<longrightarrow>
      (if \<forall>n \<in> names. \<forall>c msg. find_spec rt fs (top_level_name n) = Inl (c, msg) \<longrightarrow>
            c \<in> {ImportError, AttributeError, ModuleNotFoundError}
       then resolved_origins rt fs names \<subseteq> used_files s \<and>
            caught_failures rt fs names \<subseteq> problematic_imports s
       else \<exists>n \<in> names. \<exists>c msg. find_spec rt fs (top_level_name n) = Inl (c, msg) \<and>
              c \<notin> {ImportError, AttributeError, ModuleNotFoundError} \<and>
              (p, msg) \<in> set (errors_printed s))"
  proof (intro impI)
    assume a: "get_imported_modules rt fs p = Inr names \<and> set (set_iter rt names) = names"
    then have g: "get_imported_modules rt fs p = Inr names"
      and i: "set (set_iter rt names) = names"
      by blast+
    show "if \<forall>n \<in> names. \<forall>c msg. find_spec rt fs (top_level_name n) = Inl (c, msg) \<longrightarrow>
            c \<in> {ImportError, AttributeError, ModuleNotFoundError}
       then resolved_origins rt fs names \<subseteq> used_files s \<and>
            caught_failures rt fs names \<subseteq> problematic_imports s
       else \<exists>n \<in> names. \<exists>c msg. find_spec rt fs (top_level_name n) = Inl (c, msg) \<and>
              c \<notin> {ImportError, AttributeError, ModuleNotFoundError} \<and>
              (p, msg) \<in> set (errors_printed s)"
    proof (cases "\<forall>n \<in> names. \<forall>c msg. find_spec rt fs (top_level_name n) = Inl (c, msg) \<longrightarrow>
            c \<in> {ImportError, AttributeError, ModuleNotFoundError}")
      case True
      from record_result_entry_imports [OF g i True, of cfg info' s1] s1
      have "resolved_origins rt fs names \<subseteq> used_files s \<and>
            caught_failures rt fs names \<subseteq> problematic_imports s"
        by auto
      then show ?thesis unfolding if_P [OF True] .
    next
      case False
      then have "\<exists>n \<in> names. \<exists>c msg. find_spec rt fs (top_level_name n) = Inl (c, msg) \<and>
          c \<notin> {ImportError, AttributeError, ModuleNotFoundError}"
        by blast
      from record_result_entry_uncaught [OF g i this, of cfg info' s1] s1(3)
      have "\<exists>n \<in> names. \<exists>c msg. find_spec rt fs (top_level_name n) = Inl (c, msg) \<and>
              c \<notin> {ImportError, AttributeError, ModuleNotFoundError} \<and>
              (p, msg) \<in> set (errors_printed s)"
        by blast
      then show ?thesis unfolding if_not_P [OF False] .
    qed
  qed
  from used unparsed resolved show ?thesis by blast
qed

lemma demo_iter_imports:
  "set (set_iter demo_rt {''os'', ''nosuchmod'', ''helpers.util'', ''.sibling'', ''broken''}) =
     {''os'', ''nosuchmod'', ''helpers.util'', ''.sibling'', ''broken''}"
  by (auto simp: demo_rt_def demo_order_def)

lemma demo_imports_caught:
  "\<forall>n \<in> {''os'', ''nosuchmod'', ''helpers.util'', ''.sibling'', ''broken''}. \<forall>c msg.
     find_spec demo_rt demo_disk (top_level_name n) = Inl (c, msg) \<longrightarrow>
     c \<in> {ImportError, AttributeError, ModuleNotFoundError}"
  by (simp add: demo_rt_def demo_find_spec_def top_level_name_def)

lemma demo_helpers_resolved:
  "''/proj/helpers.py'' \<in> resolved_origins demo_rt demo_disk {''os'', ''nosuchmod'', ''helpers.util'', ''.sibling'', ''broken''}"
  by (simp add: resolved_origins_def demo_rt_def demo_find_spec_def top_level_name_def)

theorem every_entry_basename_file_is_entry_witness:
  "\<exists>s. scan demo_rt DEFAULT_CONFIG demo_disk ''/proj'' = Inr s \<and>
        map_of (all_files s) ''/proj/app.py'' = Some (demo_info 100) \<and>
        map_of (all_files s) ''/proj/sub/app.py'' = Some (demo_info 100) \<and>
        basename demo_rt ''/proj/app.py'' = MAIN_FILE DEFAULT_CONFIG \<and>
        basename demo_rt ''/proj/sub/app.py'' = MAIN_FILE DEFAULT_CONFIG \<and>
        get_imported_modules demo_rt demo_disk ''/proj/app.py'' = Inr {''os'', ''nosuchmod'', ''helpers.util'', ''.sibling'', ''broken''} \<and>
        ''/proj/app.py'' \<in> used_files s \<and> ''/proj/sub/app.py'' \<in> used_files s \<and>
        ''/proj/helpers.py'' \<in> used_files s \<and>
        caught_failures demo_rt demo_disk {''os'', ''nosuchmod'', ''helpers.util'', ''.sibling'', ''broken''} \<subseteq> problematic_imports s"
proof -
  let ?s = "\<lparr> used_files = {''/proj/app.py'', ''/usr/lib/python3/os.py'', ''/proj/helpers.py'',
                         ''/proj/sub/app.py''},
           all_files = demo_inventory,
           problematic_imports = {(''broken'', ''cannot import broken'')},
           large_files = {''/proj/big.py''},
           errors_printed = [] \<rparr>"
  have b1: "basename demo_rt ''/proj/app.py'' = MAIN_FILE DEFAULT_CONFIG"
    by (simp add: demo_rt_def demo_basename_def DEFAULT_CONFIG_def)
  have b2: "basename demo_rt ''/proj/sub/app.py'' = MAIN_FILE DEFAULT_CONFIG"
    by (simp add: demo_rt_def demo_basename_def DEFAULT_CONFIG_def)
  have i1: "map_of (all_files ?s) ''/proj/app.py'' = Some (demo_info 100)"
    by (simp add: demo_inventory_def)
  have i2: "map_of (all_files ?s) ''/proj/sub/app.py'' = Some (demo_info 100)"
    by (simp add: demo_inventory_def)
  from every_entry_basename_file_is_entry [OF demo_scan i1 b1, of _ "{''os'', ''nosuchmod'', ''helpers.util'', ''.sibling'', ''broken''}"]
    demo_get_imports demo_iter_imports demo_imports_caught
  have e1: "''/proj/app.py'' \<in> used_files ?s"
    "resolved_origins demo_rt demo_disk {''os'', ''nosuchmod'', ''helpers.util'', ''.sibling'', ''broken''} \<subseteq> used_files ?s"
    "caught_failures demo_rt demo_disk {''os'', ''nosuchmod'', ''helpers.util'', ''.sibling'', ''broken''} \<subseteq> problematic_imports ?s"
    by auto
  from every_entry_basename_file_is_entry [OF demo_scan i2 b2]
  have e2: "''/proj/sub/app.py'' \<in> used_files ?s"
    by blast
  from e1(2) demo_helpers_resolved have e3: "''/proj/helpers.py'' \<in> used_files ?s"
    by blast
  from demo_scan i1 i2 b1 b2 demo_get_imports e1(1) e2 e3 e1(3) show ?thesis
    by blast
qed

text \<open>
  C3 as it was stated fails: \<^verbatim>\<open>/proj/app.py\<close> and \<^verbatim>\<open>/proj/sub/app.py\<close> both carry the entry
  basename, and \<^verbatim>\<open>/proj/sub/app.py\<close> is the last in the traversal. The first is an entry
  file all the same: it is in the used set, and so are the origins of \<^verbatim>\<open>os\<close> and
  \<^verbatim>\<open>helpers\<close>, which only it imports.
\<close>

theorem both_entry_files_used:
  "scan_results demo_rt DEFAULT_CONFIG demo_disk ''/proj'' =
     Inr [Some (''/proj/app.py'', demo_info 100, True),
          Some (''/proj/helpers.py'', demo_info 100, False),
          Some (''/proj/unrelated.py'', demo_info 100, False),
          Some (''/proj/big.py'', demo_info 1048577, False),
          Some (''/proj/edge.py'', demo_info 1048576, False),
          None,
          Some (''/proj/sub/app.py'', demo_info 100, True)] \<and>
   map_sum id used_files (scan demo_rt DEFAULT_CONFIG demo_disk ''/proj'') =
     Inr {''/proj/app.py'', ''/usr/lib/python3/os.py'', ''/proj/helpers.py'',
          ''/proj/sub/app.py''}"
  using demo_scan_results demo_scan by simp

text \<open>
  C4: the unused set that \<^verbatim>\<open>find_unused_files\<close> returns is the set of the keys of the
  inventory minus the used set, which is the same set as the keys minus the part of the
  used set that lies in the inventory; the used set may hold paths outside the inventory.
\<close>

theorem unused_is_all_minus_used:
  assumes "scan rt cfg fs directory = Inr s"
  shows "find_unused_files rt cfg fs directory =
           Inr (set (map fst (all_files s)) - used_files s,
                problematic_imports s, large_files s, all_files s) \<and>
         set (map fst (all_files s)) - used_files s =
           set (map fst (all_files s)) - (used_files s \<inter> set (map fst (all_files s)))"
  using assms by (auto simp: find_unused_files_def)

theorem unused_is_all_minus_used_witness:
  "''/usr/lib/python3/os.py'' \<notin> set (map fst demo_inventory) \<and>
   find_unused_files demo_rt DEFAULT_CONFIG demo_disk ''/proj'' =
     Inr ({''/proj/app.py'', ''/proj/helpers.py'', ''/proj/unrelated.py'', ''/proj/big.py'',
           ''/proj/edge.py'', ''/proj/sub/app.py''} -
          {''/proj/app.py'', ''/usr/lib/python3/os.py'', ''/proj/helpers.py'',
           ''/proj/sub/app.py''},
          {(''broken'', ''cannot import broken'')},
          {''/proj/big.py''},
          demo_inventory)"
proof -
  have "set (map fst demo_inventory) =
      {''/proj/app.py'', ''/proj/helpers.py'', ''/proj/unrelated.py'', ''/proj/big.py'',
       ''/proj/edge.py'', ''/proj/sub/app.py''}"
    by (simp add: demo_inventory_def)
  with unused_is_all_minus_used [OF demo_scan] show ?thesis by simp
qed

text \<open>
  C5: a file of the inventory is in the large set exactly when its size is strictly
  greater than the threshold, whatever the used set holds; a path that is not in the
  inventory is not in the large set. So a file whose size equals the threshold is not
  large, and a file one byte over is. The size of an entry is the size that \<^verbatim>\<open>os.stat\<close>
  gives for its path, and every file of the walk for which \<^verbatim>\<open>process_file\<close> returns a
  result is in the inventory with the metadata of that result.
\<close>

theorem large_iff_size_exceeds_threshold:
  assumes "find_unused_files rt cfg fs directory = Inr (unused, problematic, large, inventory)"
  shows "(map_of inventory p = Some info \<longrightarrow>
            (p \<in> large \<longleftrightarrow> SIZE_THRESHOLD cfg < size info)) \<and>
         (map_of inventory p = Some info \<and> size info = SIZE_THRESHOLD cfg \<longrightarrow> p \<notin> large) \<and>
         (map_of inventory p = Some info \<and> size info = SIZE_THRESHOLD cfg + 1 \<longrightarrow> p \<in> large) \<and>
         (map_of inventory p = None \<longrightarrow> p \<notin> large) \<and>
         (map_of inventory p = Some info \<longrightarrow>
            (\<exists>stat. os_stat rt fs p = Inr stat \<and> size info = st_size stat)) \<and>
         (parse_gitignore rt fs directory = Inr ignore_patterns \<and>
          args \<in> set (file_list rt cfg fs directory ignore_patterns) \<and>
          process_file rt cfg fs args = Inr (Some (p, info, is_main)) \<longrightarrow>
            map_of inventory p = Some info)"
proof -
  from assms obtain s where s: "scan rt cfg fs directory = Inr s"
    and l: "large = large_files s" and i: "inventory = all_files s"
    by (auto simp: find_unused_files_def Let_def split: sum.splits)
  note agrees = large_agrees_scan [OF s]
  from agrees have iff:
    "\<forall>p. p \<in> large \<longleftrightarrow> (\<exists>info. map_of inventory p = Some info \<and> size info > SIZE_THRESHOLD cfg)"
    unfolding l i by (simp add: large_agrees_def)
  from agrees have info:
    "\<And>q j. map_of inventory q = Some j \<Longrightarrow> get_file_info rt fs q = Inr j"
    unfolding i by (simp add: large_agrees_def)
  have stat: "map_of inventory p = Some info \<longrightarrow>
      (\<exists>stat. os_stat rt fs p = Inr stat \<and> size info = st_size stat)"
  proof
    assume "map_of inventory p = Some info"
    from info [OF this] show "\<exists>stat. os_stat rt fs p = Inr stat \<and> size info = st_size stat"
      by (auto simp: get_file_info_def split: sum.splits)
  qed
  have walked: "parse_gitignore rt fs directory = Inr ignore_patterns \<and>
      args \<in> set (file_list rt cfg fs directory ignore_patterns) \<and>
      process_file rt cfg fs args = Inr (Some (p, info, is_main)) \<longrightarrow>
        map_of inventory p = Some info"
  proof
    assume a: "parse_gitignore rt fs directory = Inr ignore_patterns \<and>
      args \<in> set (file_list rt cfg fs directory ignore_patterns) \<and>
      process_file rt cfg fs args = Inr (Some (p, info, is_main))"
    from scan_Inr [OF s] obtain results where
      results: "scan_results rt cfg fs directory = Inr results" and
      fold: "s = fold (record_result rt cfg fs) results initial_scan_state"
      by blast
    from results a have
      "map_process_file rt cfg fs (file_list rt cfg fs directory ignore_patterns) = Inr results"
      by (auto simp: scan_results_def split: if_splits)
    from map_process_file_mem [OF this] a have mem: "Some (p, info, is_main) \<in> set results"
      by blast
    then have "p \<in> fst ` set (all_files s)"
      unfolding fold fold_record_result_keys by blast
    then obtain j where j: "map_of inventory p = Some j"
      unfolding i by (metis map_of_eq_None_iff not_Some_eq)
    from info [OF j] scan_results_Some [OF results mem] have "j = info" by simp
    with j show "map_of inventory p = Some info" by simp
  qed
  from iff stat walked show ?thesis by auto
qed

lemma demo_file_list:
  "(''/proj/big.py'', {}, IGNORE_DIRS DEFAULT_CONFIG, ''app.py'') \<in>
     set (file_list demo_rt DEFAULT_CONFIG demo_disk ''/proj'' {}) \<and>
   (''/proj/edge.py'', {}, IGNORE_DIRS DEFAULT_CONFIG, ''app.py'') \<in>
     set (file_list demo_rt DEFAULT_CONFIG demo_disk ''/proj'' {})"
  by code_simp

lemma demo_process_big:
  "process_file demo_rt DEFAULT_CONFIG demo_disk
     (''/proj/big.py'', {}, IGNORE_DIRS DEFAULT_CONFIG, ''app.py'') =
   Inr (Some (''/proj/big.py'', demo_info 1048577, False))"
  by code_simp

lemma demo_process_edge:
  "process_file demo_rt DEFAULT_CONFIG demo_disk
     (''/proj/edge.py'', {}, IGNORE_DIRS DEFAULT_CONFIG, ''app.py'') =
   Inr (Some (''/proj/edge.py'', demo_info 1048576, False))"
  by code_simp

lemma demo_gitignore:
  "parse_gitignore demo_rt demo_disk ''/proj'' = Inr {}"
  by code_simp

theorem large_iff_size_exceeds_threshold_witness:
  "\<exists>unused problematic large inventory.
     find_unused_files demo_rt DEFAULT_CONFIG demo_disk ''/proj'' =
       Inr (unused, problematic, large, inventory) \<and>
     process_file demo_rt DEFAULT_CONFIG demo_disk
       (''/proj/edge.py'', {}, IGNORE_DIRS DEFAULT_CONFIG, ''app.py'') =
       Inr (Some (''/proj/edge.py'', demo_info 1048576, False)) \<and>
     map_of inventory ''/proj/edge.py'' = Some (demo_info 1048576) \<and>
     size (demo_info 1048576) = SIZE_THRESHOLD DEFAULT_CONFIG \<and>
     ''/proj/edge.py'' \<notin> large \<and>
     process_file demo_rt DEFAULT_CONFIG demo_disk
       (''/proj/big.py'', {}, IGNORE_DIRS DEFAULT_CONFIG, ''app.py'') =
       Inr (Some (''/proj/big.py'', demo_info 1048577, False)) \<and>
     map_of inventory ''/proj/big.py'' = Some (demo_info 1048577) \<and>
     size (demo_info 1048577) = SIZE_THRESHOLD DEFAULT_CONFIG + 1 \<and>
     ''/proj/big.py'' \<in> large"
proof -
  have se: "size (demo_info 1048576) = SIZE_THRESHOLD DEFAULT_CONFIG"
    by (simp add: demo_info_def DEFAULT_CONFIG_def)
  have sb: "size (demo_info 1048577) = SIZE_THRESHOLD DEFAULT_CONFIG + 1"
    by (simp add: demo_info_def DEFAULT_CONFIG_def)
  have e: "map_of demo_inventory ''/proj/edge.py'' = Some (demo_info 1048576)"
    by (rule large_iff_size_exceeds_threshold
          [where ignore_patterns = "{}" and is_main = False and
             args = "(''/proj/edge.py'', {}, IGNORE_DIRS DEFAULT_CONFIG, ''app.py'')",
           OF demo_find_unused_files,
           THEN conjunct2, THEN conjunct2, THEN conjunct2, THEN conjunct2, THEN conjunct2,
           THEN mp])
      (intro conjI demo_gitignore demo_file_list [THEN conjunct2] demo_process_edge)
  have e': "''/proj/edge.py'' \<notin> {''/proj/big.py''}"
    by (rule large_iff_size_exceeds_threshold
          [where info = "demo_info 1048576", OF demo_find_unused_files,
           THEN conjunct2, THEN conjunct1, THEN mp])
      (intro conjI e se)
  have b: "map_of demo_inventory ''/proj/big.py'' = Some (demo_info 1048577)"
    by (rule large_iff_size_exceeds_threshold
          [where ignore_patterns = "{}" and is_main = False and
             args = "(''/proj/big.py'', {}, IGNORE_DIRS DEFAULT_CONFIG, ''app.py'')",
           OF demo_find_unused_files,
           THEN conjunct2, THEN conjunct2, THEN conjunct2, THEN conjunct2, THEN conjunct2,
           THEN mp])
      (intro conjI demo_gitignore demo_file_list [THEN conjunct1] demo_process_big)
  have b': "''/proj/big.py'' \<in> {''/proj/big.py''}"
    by (rule large_iff_size_exceeds_threshold
          [where info = "demo_info 1048577", OF demo_find_unused_files,
           THEN conjunct2, THEN conjunct2, THEN conjunct1, THEN mp])
      (intro conjI b sb)
  show ?thesis
    apply (intro exI conjI)
            apply (rule demo_find_unused_files)
           apply (rule demo_process_edge)
          apply (rule e)
         apply (rule se)
        apply (rule e')
       apply (rule demo_process_big)
      apply (rule b)
     apply (rule sb)
    apply (rule b')
    done
qed
section \<open>The interactive selection\<close>

lemma sum_selected_bounds: "0 \<le> sum_selected sel \<and> sum_selected sel \<le> int (length sel)"
  unfolding sum_selected_def by (induction sel) auto

lemma menu_invariant_iff:
  "menu_invariant options st \<longleftrightarrow>
     length (selected st) = length options \<and> 0 \<le> current st \<and> current st < int (length options)"
  using sum_selected_bounds [of "selected st"] by (auto simp: menu_invariant_def)

lemma menu_invariant_initial: "options \<noteq> [] \<Longrightarrow> menu_invariant options (initial_menu_state options)"
  by (simp add: menu_invariant_iff initial_menu_state_def)

lemma menu_invariant_arrow:
  "menu_invariant options st \<Longrightarrow> menu_invariant options (arrow options key st)"
  by (auto simp: menu_invariant_iff arrow_def)

lemma py_index_in_range:
  "0 \<le> i \<Longrightarrow> i < int (length xs) \<Longrightarrow> py_index xs i = Some (nat i)"
  by (simp add: py_index_def)

lemma press_Continue:
  "menu_invariant options st \<Longrightarrow> press options key st = Continue st' \<Longrightarrow>
     menu_invariant options st'"
  by (auto simp: menu_invariant_iff press_def py_index_in_range
      split: if_splits sum.splits option.splits)

lemma press_no_Raise:
  "menu_invariant options st \<Longrightarrow> press options key st \<noteq> Raise e"
  by (auto simp: menu_invariant_iff press_def py_index_in_range chosen_def
      split: if_splits sum.splits option.splits)

lemma select_loop_invariant:
  "menu_invariant options st \<Longrightarrow>
     (\<forall>st' rest. select_loop options st ks = (Waiting st', rest) \<longrightarrow> menu_invariant options st') \<and>
     (\<forall>e rest. select_loop options st ks \<noteq> (Raised e, rest))"
proof (induction options st ks rule: select_loop.induct)
  case (1 options st)
  then show ?case by simp
next
  case (2 options st c cs)
  show ?case
  proof (cases "c = CHR 0x1B")
    case True
    show ?thesis
    proof (cases cs)
      case Nil
      with True 2 show ?thesis by simp
    next
      case (Cons c1 cs1)
      show ?thesis
      proof (cases cs1)
        case Nil
        with True Cons 2 show ?thesis by simp
      next
        case (Cons c2 cs')
        from "2.prems" have "menu_invariant options (arrow options [c, c1, c2] st)"
          by (rule menu_invariant_arrow)
        from "2.IH"(1) [OF True \<open>cs = c1 # cs1\<close> Cons this] True \<open>cs = c1 # cs1\<close> Cons
        show ?thesis by simp
      qed
    qed
  next
    case False
    show ?thesis
    proof (cases "press options [c] st")
      case (Continue st1)
      from press_Continue [OF "2.prems" Continue] have "menu_invariant options st1" .
      from "2.IH"(2) [OF False Continue this] False Continue show ?thesis by simp
    next
      case (Return r)
      with False show ?thesis by simp
    next
      case (Raise e)
      with press_no_Raise [OF "2.prems"] show ?thesis by blast
    qed
  qed
qed

lemma arrow_up:
  "menu_invariant options st \<Longrightarrow>
     arrow options key_up st = st\<lparr>current := max 0 (current st - 1)\<rparr>"
  by (auto simp: menu_invariant_iff arrow_def key_up_def max_def)

lemma arrow_down:
  "menu_invariant options st \<Longrightarrow>
     arrow options key_down st =
       st\<lparr>current := min (int (length options) - 1) (current st + 1)\<rparr>"
  by (auto simp: menu_invariant_iff arrow_def key_down_def min_def)

text \<open>
  C7: for a non-empty list of options and every sequence of characters from the terminal,
  the loop of \<^verbatim>\<open>interactive_select\<close> never raises, and every state it reaches keeps as
  many flags as options, a cursor within the indices of the options, and a number of
  selected options between zero and the number of options. The up key takes the cursor
  to \<open>max 0 (current - 1)\<close> and the down key to \<open>min (len - 1) (current + 1)\<close>: one step,
  stopping at the ends; neither changes the flags.
\<close>

theorem selection_state_invariant:
  assumes "options \<noteq> []"
  shows "(\<forall>st rest. select_loop options (initial_menu_state options) ks = (Waiting st, rest) \<longrightarrow>
            length (selected st) = length options \<and>
            0 \<le> current st \<and> current st < int (length options) \<and>
            0 \<le> sum_selected (selected st) \<and> sum_selected (selected st) \<le> int (length options) \<and>
            arrow options key_up st = st\<lparr>current := max 0 (current st - 1)\<rparr> \<and>
            arrow options key_down st =
              st\<lparr>current := min (int (length options) - 1) (current st + 1)\<rparr>) \<and>
         (\<forall>e rest. select_loop options (initial_menu_state options) ks \<noteq> (Raised e, rest))"
proof -
  from assms have init: "menu_invariant options (initial_menu_state options)"
    by (rule menu_invariant_initial)
  note inv = select_loop_invariant [OF init, of ks]
  show ?thesis
  proof (intro conjI allI impI)
    fix st rest
    assume "select_loop options (initial_menu_state options) ks = (Waiting st, rest)"
    with inv have m: "menu_invariant options st" by blast
    then show "length (selected st) = length options" "0 \<le> current st"
      "current st < int (length options)" "0 \<le> sum_selected (selected st)"
      "sum_selected (selected st) \<le> int (length options)"
      by (simp_all add: menu_invariant_def)
    from m show "arrow options key_up st = st\<lparr>current := max 0 (current st - 1)\<rparr>"
      by (rule arrow_up)
    from m show "arrow options key_down st =
        st\<lparr>current := min (int (length options) - 1) (current st + 1)\<rparr>"
      by (rule arrow_down)
  next
    fix e rest
    from inv show "select_loop options (initial_menu_state options) ks \<noteq> (Raised e, rest)"
      by blast
  qed
qed

lemma demo_select_loop:
  "select_loop [''a.py'', ''b.py''] (initial_menu_state [''a.py'', ''b.py''])
     (key_up @ '' '' @ key_down @ key_down @ ''A'' @ '' '') =
   (Waiting \<lparr> selected = [True, False], current = 1 \<rparr>, [])"
  by code_simp

theorem selection_state_invariant_witness:
  "[''a.py'', ''b.py''] \<noteq> [] \<and>
   select_loop [''a.py'', ''b.py''] (initial_menu_state [''a.py'', ''b.py''])
     (key_up @ '' '' @ key_down @ key_down @ ''A'' @ '' '') =
   (Waiting \<lparr> selected = [True, False], current = 1 \<rparr>, []) \<and>
   sum_selected [True, False] \<le> 2 \<and>
   arrow [''a.py'', ''b.py''] key_down \<lparr> selected = [True, False], current = 1 \<rparr> =
     \<lparr> selected = [True, False], current = 1 \<rparr> \<and>
   arrow [''a.py'', ''b.py''] key_up \<lparr> selected = [True, False], current = 1 \<rparr> =
     \<lparr> selected = [True, False], current = 0 \<rparr>"
proof -
  have ne: "[''a.py'', ''b.py''] \<noteq> ([] :: string list)" by simp
  from selection_state_invariant [OF ne,
      of "key_up @ '' '' @ key_down @ key_down @ ''A'' @ '' ''"] demo_select_loop
  show ?thesis by simp
qed

section \<open>Deleting and archiving\<close>

lemma delete_files_append:
  "delete_files rt (xs @ ys) w = delete_files rt ys (delete_files rt xs w)"
  by (induction xs arbitrary: w) (auto split: prod.splits option.splits)

lemma delete_files_single:
  "delete_files rt [f] w =
     say [case fst (os_remove rt (disk w) f) of
            None \<Rightarrow> Deleted f
          | Some e \<Rightarrow> Error_deleting f (snd e)]
       (w\<lparr>disk := snd (os_remove rt (disk w) f)\<rparr>)"
  by (cases "os_remove rt (disk w) f") (auto split: option.splits)

lemma delete_files_disk:
  "disk (delete_files rt files w) = fold (\<lambda>file d. snd (os_remove rt d file)) files (disk w)"
proof (induction files arbitrary: w)
  case Nil
  show ?case by simp
next
  case (Cons f files)
  obtain r d where rm: "os_remove rt (disk w) f = (r, d)" by (cases "os_remove rt (disk w) f")
  with Cons show ?case by (cases r) (simp_all add: say_def)
qed

lemma delete_files_frame:
  "stdin_keys (delete_files rt files w) = stdin_keys w \<and>
   stdin_lines (delete_files rt files w) = stdin_lines w"
proof (induction files arbitrary: w)
  case Nil
  show ?case by simp
next
  case (Cons f files)
  obtain r d where rm: "os_remove rt (disk w) f = (r, d)" by (cases "os_remove rt (disk w) f")
  with Cons show ?case by (cases r) (simp_all add: say_def)
qed

lemma delete_files_reports:
  "\<exists>reports. printed (delete_files rt files w) = printed w @ reports \<and>
             length reports = length files"
proof (induction files arbitrary: w)
  case Nil
  show ?case by simp
next
  case (Cons f files)
  obtain r d where rm: "os_remove rt (disk w) f = (r, d)" by (cases "os_remove rt (disk w) f")
  show ?case
  proof (cases r)
    case None
    let ?w1 = "say [Deleted f] (w\<lparr>disk := d\<rparr>)"
    from Cons [of ?w1] obtain reports where
      "printed (delete_files rt files ?w1) = printed ?w1 @ reports"
      "length reports = length files" by blast
    with rm None show ?thesis
      by (intro exI [of _ "Deleted f # reports"]) (simp add: say_def)
  next
    case (Some e)
    let ?w1 = "say [Error_deleting f (snd e)] (w\<lparr>disk := d\<rparr>)"
    from Cons [of ?w1] obtain reports where
      "printed (delete_files rt files ?w1) = printed ?w1 @ reports"
      "length reports = length files" by blast
    with rm Some show ?thesis
      by (intro exI [of _ "Error_deleting f (snd e) # reports"])
        (simp add: say_def)
  qed
qed

text \<open>
  The line for the file at an index is decided by what \<^verbatim>\<open>os.remove\<close> does with that file
  on the file system that the files before it have left.
\<close>

lemma delete_files_nth:
  assumes "i < length files"
  shows "printed (delete_files rt files w) ! (length (printed w) + i) =
           (case fst (os_remove rt (disk (delete_files rt (take i files) w)) (files ! i)) of
              None \<Rightarrow> Deleted (files ! i)
            | Some e \<Rightarrow> Error_deleting (files ! i) (snd e))"
proof -
  let ?w1 = "delete_files rt (take i files) w"
  let ?w2 = "delete_files rt [files ! i] ?w1"
  let ?line = "case fst (os_remove rt (disk ?w1) (files ! i)) of
                 None \<Rightarrow> Deleted (files ! i)
               | Some e \<Rightarrow> Error_deleting (files ! i) (snd e)"
  from assms have "files = take i files @ [files ! i] @ drop (Suc i) files"
    by (simp add: id_take_nth_drop [symmetric])
  then have "delete_files rt files w =
      delete_files rt (take i files @ [files ! i] @ drop (Suc i) files) w"
    by (rule arg_cong [where f = "\<lambda>z. delete_files rt z w"])
  then have split: "delete_files rt files w = delete_files rt (drop (Suc i) files) ?w2"
    by (simp only: delete_files_append)
  from delete_files_reports [of rt "take i files" w] assms obtain r1 where
    r1: "printed ?w1 = printed w @ r1" "length r1 = i" by auto
  have p2: "printed ?w2 = printed ?w1 @ [?line]"
    by (simp only: delete_files_single) (simp add: say_def)
  from delete_files_reports [of rt "drop (Suc i) files" ?w2] obtain r3 where
    "printed (delete_files rt (drop (Suc i) files) ?w2) = printed ?w2 @ r3" by blast
  with split r1 p2 have "printed (delete_files rt files w) = (printed w @ r1) @ ?line # r3"
    by simp
  moreover have "((printed w @ r1) @ ?line # r3) ! (length (printed w) + i) = ?line"
    using r1(2) nth_append_length [of "printed w @ r1" ?line r3] by simp
  ultimately show ?thesis by simp
qed

lemma delete_files_take_Suc:
  assumes "i < length files"
  shows "disk (delete_files rt (take (Suc i) files) w) =
           snd (os_remove rt (disk (delete_files rt (take i files) w)) (files ! i))"
proof -
  from assms have "take (Suc i) files = take i files @ [files ! i]"
    by (rule take_Suc_conv_app_nth)
  then have "delete_files rt (take (Suc i) files) w =
      delete_files rt [files ! i] (delete_files rt (take i files) w)"
    by (simp only: delete_files_append)
  then show ?thesis by (simp only: delete_files_single) (simp add: say_def)
qed

lemma move_files_append:
  "move_files rt folder (xs @ ys) w = move_files rt folder ys (move_files rt folder xs w)"
  by (induction xs arbitrary: w) (auto simp: Let_def split: prod.splits option.splits)

lemma move_files_single:
  "move_files rt folder [f] w =
     say [case fst (shutil_move rt (disk w) f (path_join rt folder (basename rt f))) of
            None \<Rightarrow> Moved f
          | Some e \<Rightarrow> Error_moving f (snd e)]
       (w\<lparr>disk := snd (shutil_move rt (disk w) f (path_join rt folder (basename rt f)))\<rparr>)"
  by (cases "shutil_move rt (disk w) f (path_join rt folder (basename rt f))")
    (auto simp: Let_def split: option.splits)

lemma move_files_disk:
  "disk (move_files rt folder files w) =
     fold (\<lambda>file d. snd (shutil_move rt d file (path_join rt folder (basename rt file))))
       files (disk w)"
proof (induction files arbitrary: w)
  case Nil
  show ?case by simp
next
  case (Cons f files)
  obtain r d where mv: "shutil_move rt (disk w) f (path_join rt folder (basename rt f)) = (r, d)"
    by (cases "shutil_move rt (disk w) f (path_join rt folder (basename rt f))")
  with Cons show ?case by (cases r) (simp_all add: say_def Let_def)
qed

lemma move_files_frame:
  "stdin_keys (move_files rt folder files w) = stdin_keys w \<and>
   stdin_lines (move_files rt folder files w) = stdin_lines w"
proof (induction files arbitrary: w)
  case Nil
  show ?case by simp
next
  case (Cons f files)
  obtain r d where mv: "shutil_move rt (disk w) f (path_join rt folder (basename rt f)) = (r, d)"
    by (cases "shutil_move rt (disk w) f (path_join rt folder (basename rt f))")
  with Cons show ?case by (cases r) (simp_all add: say_def Let_def)
qed

lemma move_files_reports:
  "\<exists>reports. printed (move_files rt folder files w) = printed w @ reports \<and>
             length reports = length files"
proof (induction files arbitrary: w)
  case Nil
  show ?case by simp
next
  case (Cons f files)
  obtain r d where mv: "shutil_move rt (disk w) f (path_join rt folder (basename rt f)) = (r, d)"
    by (cases "shutil_move rt (disk w) f (path_join rt folder (basename rt f))")
  show ?case
  proof (cases r)
    case None
    let ?w1 = "say [Moved f] (w\<lparr>disk := d\<rparr>)"
    from Cons [of ?w1] obtain reports where
      "printed (move_files rt folder files ?w1) = printed ?w1 @ reports"
      "length reports = length files" by blast
    with mv None show ?thesis
      by (intro exI [of _ "Moved f # reports"]) (simp add: say_def Let_def)
  next
    case (Some e)
    let ?w1 = "say [Error_moving f (snd e)] (w\<lparr>disk := d\<rparr>)"
    from Cons [of ?w1] obtain reports where
      "printed (move_files rt folder files ?w1) = printed ?w1 @ reports"
      "length reports = length files" by blast
    with mv Some show ?thesis
      by (intro exI [of _ "Error_moving f (snd e) # reports"])
        (simp add: say_def Let_def)
  qed
qed

lemma move_files_nth:
  assumes "i < length files"
  shows "printed (move_files rt folder files w) ! (length (printed w) + i) =
           (case fst (shutil_move rt (disk (move_files rt folder (take i files) w)) (files ! i)
                        (path_join rt folder (basename rt (files ! i)))) of
              None \<Rightarrow> Moved (files ! i)
            | Some e \<Rightarrow> Error_moving (files ! i) (snd e))"
proof -
  let ?w1 = "move_files rt folder (take i files) w"
  let ?w2 = "move_files rt folder [files ! i] ?w1"
  let ?line = "case fst (shutil_move rt (disk ?w1) (files ! i)
                           (path_join rt folder (basename rt (files ! i)))) of
                 None \<Rightarrow> Moved (files ! i)
               | Some e \<Rightarrow> Error_moving (files ! i) (snd e)"
  from assms have "files = take i files @ [files ! i] @ drop (Suc i) files"
    by (simp add: id_take_nth_drop [symmetric])
  then have "move_files rt folder files w =
      move_files rt folder (take i files @ [files ! i] @ drop (Suc i) files) w"
    by (rule arg_cong [where f = "\<lambda>z. move_files rt folder z w"])
  then have split: "move_files rt folder files w = move_files rt folder (drop (Suc i) files) ?w2"
    by (simp only: move_files_append)
  from move_files_reports [of rt folder "take i files" w] assms obtain r1 where
    r1: "printed ?w1 = printed w @ r1" "length r1 = i" by auto
  have p2: "printed ?w2 = printed ?w1 @ [?line]"
    by (simp only: move_files_single) (simp add: say_def)
  from move_files_reports [of rt folder "drop (Suc i) files" ?w2] obtain r3 where
    "printed (move_files rt folder (drop (Suc i) files) ?w2) = printed ?w2 @ r3" by blast
  with split r1 p2 have "printed (move_files rt folder files w) = (printed w @ r1) @ ?line # r3"
    by simp
  moreover have "((printed w @ r1) @ ?line # r3) ! (length (printed w) + i) = ?line"
    using r1(2) nth_append_length [of "printed w @ r1" ?line r3] by simp
  ultimately show ?thesis by simp
qed

lemma move_files_take_Suc:
  assumes "i < length files"
  shows "disk (move_files rt folder (take (Suc i) files) w) =
           snd (shutil_move rt (disk (move_files rt folder (take i files) w)) (files ! i)
                  (path_join rt folder (basename rt (files ! i))))"
proof -
  from assms have "take (Suc i) files = take i files @ [files ! i]"
    by (rule take_Suc_conv_app_nth)
  then have "move_files rt folder (take (Suc i) files) w =
      move_files rt folder [files ! i] (move_files rt folder (take i files) w)"
    by (simp only: move_files_append)
  then show ?thesis by (simp only: move_files_single) (simp add: say_def)
qed

lemma move_to_archive_ready:
  assumes "path_exists rt (disk w) folder \<or> fst (os_makedirs rt (disk w) folder) = None"
  shows "move_to_archive rt files folder w =
           (None, move_files rt folder files
                    (w\<lparr>disk := (if path_exists rt (disk w) folder then disk w
                                else snd (os_makedirs rt (disk w) folder))\<rparr>))"
  using assms by (cases "os_makedirs rt (disk w) folder") (auto simp: move_to_archive_def)

lemma move_to_archive_refused:
  assumes "\<not> path_exists rt (disk w) folder"
    and "os_makedirs rt (disk w) folder = (Some e, d)"
  shows "move_to_archive rt files folder w = (Some e, w\<lparr>disk := d\<rparr>)"
  using assms by (simp add: move_to_archive_def)

text \<open>
  C9 (as amended): a failure on one item does not end the batch. \<^verbatim>\<open>delete_files\<close> prints
  one line for each file, in order, after what was printed before. For the file at each
  index \<^verbatim>\<open>os.remove\<close> is called on the file system that the files before it have left,
  whatever happened to them; when it returns the line is \<^verbatim>\<open>Deleted\<close>, when it raises the
  line is \<^verbatim>\<open>Error deleting\<close> with the text of the exception, and the files after it are
  processed from the file system it leaves. \<^verbatim>\<open>move_to_archive\<close> first creates the archive
  directory if it does not exist. If the creation raises, the exception leaves
  \<^verbatim>\<open>move_to_archive\<close>: no file is moved and no line is printed. Otherwise its loop does
  for \<^verbatim>\<open>shutil.move\<close> of each file to its base name in the archive directory what
  \<^verbatim>\<open>delete_files\<close> does for \<^verbatim>\<open>os.remove\<close>, with the lines \<^verbatim>\<open>Moved to archive\<close> and
  \<^verbatim>\<open>Error moving\<close>, starting from the file system with the directory.
\<close>

theorem batch_continues_past_failures:
  assumes "i < length files"
  shows "length (printed (delete_files rt files w)) = length (printed w) + length files \<and>
         take (length (printed w)) (printed (delete_files rt files w)) = printed w \<and>
         (fst (os_remove rt (disk (delete_files rt (take i files) w)) (files ! i)) = None \<longrightarrow>
            printed (delete_files rt files w) ! (length (printed w) + i) = Deleted (files ! i)) \<and>
         (fst (os_remove rt (disk (delete_files rt (take i files) w)) (files ! i)) = Some e \<longrightarrow>
            printed (delete_files rt files w) ! (length (printed w) + i) =
              Error_deleting (files ! i) (snd e)) \<and>
         disk (delete_files rt (take (Suc i) files) w) =
           snd (os_remove rt (disk (delete_files rt (take i files) w)) (files ! i)) \<and>
         delete_files rt (done @ rest) w = delete_files rt rest (delete_files rt done w) \<and>
         (\<not> path_exists rt (disk w) folder \<and> os_makedirs rt (disk w) folder = (Some e, d) \<longrightarrow>
            move_to_archive rt files folder w = (Some e, w\<lparr>disk := d\<rparr>)) \<and>
         (path_exists rt (disk w) folder \<or> fst (os_makedirs rt (disk w) folder) = None \<longrightarrow>
            move_to_archive rt files folder w =
              (None, move_files rt folder files
                       (w\<lparr>disk := (if path_exists rt (disk w) folder then disk w
                                   else snd (os_makedirs rt (disk w) folder))\<rparr>))) \<and>
         length (printed (move_files rt folder files w)) = length (printed w) + length files \<and>
         take (length (printed w)) (printed (move_files rt folder files w)) = printed w \<and>
         (fst (shutil_move rt (disk (move_files rt folder (take i files) w)) (files ! i)
                 (path_join rt folder (basename rt (files ! i)))) = None \<longrightarrow>
            printed (move_files rt folder files w) ! (length (printed w) + i) = Moved (files ! i)) \<and>
         (fst (shutil_move rt (disk (move_files rt folder (take i files) w)) (files ! i)
                 (path_join rt folder (basename rt (files ! i)))) = Some e \<longrightarrow>
            printed (move_files rt folder files w) ! (length (printed w) + i) =
              Error_moving (files ! i) (snd e)) \<and>
         disk (move_files rt folder (take (Suc i) files) w) =
           snd (shutil_move rt (disk (move_files rt folder (take i files) w)) (files ! i)
                  (path_join rt folder (basename rt (files ! i)))) \<and>
         move_files rt folder (done @ rest) w =
           move_files rt folder rest (move_files rt folder done w)"
proof -
  from delete_files_reports [of rt files w] have d1:
    "length (printed (delete_files rt files w)) = length (printed w) + length files"
    "take (length (printed w)) (printed (delete_files rt files w)) = printed w"
    by auto
  from delete_files_nth [OF assms, of rt w] have d2:
    "fst (os_remove rt (disk (delete_files rt (take i files) w)) (files ! i)) = None \<longrightarrow>
       printed (delete_files rt files w) ! (length (printed w) + i) = Deleted (files ! i)"
    "fst (os_remove rt (disk (delete_files rt (take i files) w)) (files ! i)) = Some e \<longrightarrow>
       printed (delete_files rt files w) ! (length (printed w) + i) =
         Error_deleting (files ! i) (snd e)"
    by simp_all
  note d3 = delete_files_take_Suc [OF assms, of rt w]
  note d4 = delete_files_append [of rt "done" rest w]
  have a0: "\<not> path_exists rt (disk w) folder \<and> os_makedirs rt (disk w) folder = (Some e, d) \<longrightarrow>
      move_to_archive rt files folder w = (Some e, w\<lparr>disk := d\<rparr>)"
    using move_to_archive_refused [of rt w folder e d files] by blast
  have a1: "path_exists rt (disk w) folder \<or> fst (os_makedirs rt (disk w) folder) = None \<longrightarrow>
      move_to_archive rt files folder w =
        (None, move_files rt folder files
                 (w\<lparr>disk := (if path_exists rt (disk w) folder then disk w
                             else snd (os_makedirs rt (disk w) folder))\<rparr>))"
    using move_to_archive_ready [of rt w folder files] by blast
  from move_files_reports [of rt folder files w] have m1:
    "length (printed (move_files rt folder files w)) = length (printed w) + length files"
    "take (length (printed w)) (printed (move_files rt folder files w)) = printed w"
    by auto
  from move_files_nth [OF assms, of rt folder w] have m2:
    "fst (shutil_move rt (disk (move_files rt folder (take i files) w)) (files ! i)
            (path_join rt folder (basename rt (files ! i)))) = None \<longrightarrow>
       printed (move_files rt folder files w) ! (length (printed w) + i) = Moved (files ! i)"
    "fst (shutil_move rt (disk (move_files rt folder (take i files) w)) (files ! i)
            (path_join rt folder (basename rt (files ! i)))) = Some e \<longrightarrow>
       printed (move_files rt folder files w) ! (length (printed w) + i) =
         Error_moving (files ! i) (snd e)"
    by simp_all
  note m3 = move_files_take_Suc [OF assms, of rt folder w]
  note m4 = move_files_append [of rt folder "done" rest w]
  show ?thesis
    by (intro conjI d1 d2 d3 d4 a0 a1 m1 m2 m3 m4)
qed

lemma demo_delete:
  "delete_files demo_rt demo_batch
     (demo_world [] []) =
   \<lparr> disk = [(''/proj'', [''app.py'', ''helpers.py'', ''edge.py'', ''notes.txt'']),
             (''/proj/sub'', [''app.py''])],
     stdin_keys = [], stdin_lines = [],
     printed = [Deleted ''/proj/unrelated.py'',
                Error_deleting ''/proj/missing.py'' ''No such file or directory'',
                Deleted ''/proj/big.py''] \<rparr>"
  by code_simp

lemma demo_archive:
  "move_to_archive demo_rt demo_batch
     ''/proj/Guido_Gallery'' (demo_world [] []) =
   (None,
    \<lparr> disk = [(''/proj'', [''app.py'', ''helpers.py'', ''edge.py'', ''notes.txt'']),
              (''/proj/sub'', [''app.py'']),
              (''/proj/Guido_Gallery'', [''unrelated.py'', ''big.py''])],
      stdin_keys = [], stdin_lines = [],
      printed = [Moved ''/proj/unrelated.py'',
                 Error_moving ''/proj/missing.py'' ''No such file or directory'',
                 Moved ''/proj/big.py''] \<rparr>)"
  by code_simp

lemma demo_remove_missing:
  "fst (os_remove demo_rt (disk (delete_files demo_rt (take 1 demo_batch) (demo_world [] [])))
          (demo_batch ! 1)) =
     Some (OSError, ''No such file or directory'')"
  by code_simp

lemma demo_remove_big:
  "fst (os_remove demo_rt (disk (delete_files demo_rt (take 2 demo_batch) (demo_world [] [])))
          (demo_batch ! 2)) = None"
  by code_simp

lemma demo_makedirs_ok:
  "\<not> path_exists demo_rt (disk (demo_world [] [])) ''/proj/Guido_Gallery'' \<and>
   fst (os_makedirs demo_rt (disk (demo_world [] [])) ''/proj/Guido_Gallery'') = None"
  by code_simp

theorem batch_continues_past_failures_witness:
  "(1::nat) < length demo_batch \<and>
   fst (os_remove demo_rt (disk (delete_files demo_rt (take 1 demo_batch) (demo_world [] [])))
          (demo_batch ! 1)) =
     Some (OSError, ''No such file or directory'') \<and>
   printed (delete_files demo_rt demo_batch (demo_world [] [])) !
       (length (printed (demo_world [] [])) + 1) =
     Error_deleting (demo_batch ! 1) ''No such file or directory'' \<and>
   (2::nat) < length demo_batch \<and>
   fst (os_remove demo_rt (disk (delete_files demo_rt (take 2 demo_batch) (demo_world [] [])))
          (demo_batch ! 2)) = None \<and>
   printed (delete_files demo_rt demo_batch (demo_world [] [])) !
       (length (printed (demo_world [] [])) + 2) =
     Deleted (demo_batch ! 2) \<and>
   \<not> path_exists demo_rt (disk (demo_world [] [])) ''/proj/Guido_Gallery'' \<and>
   fst (os_makedirs demo_rt (disk (demo_world [] [])) ''/proj/Guido_Gallery'') = None \<and>
   move_to_archive demo_rt demo_batch ''/proj/Guido_Gallery'' (demo_world [] []) =
     (None, move_files demo_rt ''/proj/Guido_Gallery'' demo_batch
              ((demo_world [] [])
                 \<lparr>disk := snd (os_makedirs demo_rt (disk (demo_world [] []))
                                 ''/proj/Guido_Gallery'')\<rparr>)) \<and>
   printed (snd (move_to_archive demo_rt demo_batch ''/proj/Guido_Gallery'' (demo_world [] []))) =
     [Moved ''/proj/unrelated.py'',
      Error_moving ''/proj/missing.py'' ''No such file or directory'',
      Moved ''/proj/big.py'']"
proof -
  have l1: "(1::nat) < length demo_batch"
    by (simp add: demo_batch_def)
  have l2: "(2::nat) < length demo_batch"
    by (simp add: demo_batch_def)
  have line1: "printed (delete_files demo_rt demo_batch (demo_world [] [])) ! (length (printed (demo_world [] [])) + 1) =
      Error_deleting (demo_batch ! 1) (snd (OSError, ''No such file or directory''))"
    by (rule batch_continues_past_failures
          [OF l1, THEN conjunct2, THEN conjunct2, THEN conjunct2, THEN conjunct1, THEN mp])
      (rule demo_remove_missing)
  have line2: "printed (delete_files demo_rt demo_batch (demo_world [] [])) ! (length (printed (demo_world [] [])) + 2) =
      Deleted (demo_batch ! 2)"
    by (rule batch_continues_past_failures
          [OF l2, THEN conjunct2, THEN conjunct2, THEN conjunct1, THEN mp])
      (rule demo_remove_big)
  have "move_to_archive demo_rt demo_batch ''/proj/Guido_Gallery'' (demo_world [] []) =
     (None, move_files demo_rt ''/proj/Guido_Gallery'' demo_batch
              ((demo_world [] [])\<lparr>disk := (if path_exists demo_rt (disk (demo_world [] [])) ''/proj/Guido_Gallery'' then disk (demo_world [] [])
                           else snd (os_makedirs demo_rt (disk (demo_world [] [])) ''/proj/Guido_Gallery''))\<rparr>))"
    by (rule batch_continues_past_failures
          [OF l1, THEN conjunct2, THEN conjunct2, THEN conjunct2, THEN conjunct2, THEN conjunct2,
           THEN conjunct2, THEN conjunct2, THEN conjunct1, THEN mp])
      (rule disjI2, rule demo_makedirs_ok [THEN conjunct2])
  then have ready: "move_to_archive demo_rt demo_batch ''/proj/Guido_Gallery'' (demo_world [] []) =
     (None, move_files demo_rt ''/proj/Guido_Gallery'' demo_batch
              ((demo_world [] [])\<lparr>disk := snd (os_makedirs demo_rt (disk (demo_world [] [])) ''/proj/Guido_Gallery'')\<rparr>))"
    by (simp only: demo_makedirs_ok [THEN conjunct1] if_False)
  have lines: "printed (snd (move_to_archive demo_rt demo_batch ''/proj/Guido_Gallery'' (demo_world [] []))) =
     [Moved ''/proj/unrelated.py'',
      Error_moving ''/proj/missing.py'' ''No such file or directory'',
      Moved ''/proj/big.py'']"
    by (simp only: demo_archive snd_conv world.simps)
  from line1 have line1': "printed (delete_files demo_rt demo_batch (demo_world [] [])) ! (length (printed (demo_world [] [])) + 1) =
      Error_deleting (demo_batch ! 1) ''No such file or directory''"
    by (simp only: snd_conv)
  show ?thesis
    by (intro conjI l1 demo_remove_missing line1' l2 demo_remove_big line2
          demo_makedirs_ok [THEN conjunct1] demo_makedirs_ok [THEN conjunct2] ready lines)
qed

text \<open>
  C9 as it was stated fails where the archive directory cannot be created: the
  directory is absent, \<^verbatim>\<open>os.makedirs\<close> raises, and \<^verbatim>\<open>move_to_archive\<close> ends with that
  exception, with no file moved and no line printed. In \<^verbatim>\<open>main\<close>, with every file selected,
  the archive key pressed and both confirmations given, the exception leaves \<^verbatim>\<open>main\<close> and
  the file system is as it was.
\<close>

theorem archive_not_created_moves_nothing:
  "\<not> path_exists readonly_rt demo_disk ''/proj/Guido_Gallery'' \<and>
   move_to_archive readonly_rt [''/proj/unrelated.py'', ''/proj/big.py'']
     ''/proj/Guido_Gallery'' (demo_world [] []) =
     (Some (OSError, ''Permission denied''), (demo_world [] [])) \<and>
   fst (main_body readonly_rt DEFAULT_CONFIG False (demo_world ''am'' [''y'', ''y''])) =
     Raises (OSError, ''Permission denied'') \<and>
   disk (snd (main_body readonly_rt DEFAULT_CONFIG False (demo_world ''am'' [''y'', ''y'']))) =
     demo_disk"
  by code_simp
section \<open>Lower case\<close>

text \<open>Which characters \<^verbatim>\<open>str.lower\<close> takes to a given lower-case letter.\<close>

lemma lower_char_eq_lower:
  assumes "97 \<le> (of_char t :: nat)" "(of_char t :: nat) \<le> 122"
  shows "lower_char c = t \<longleftrightarrow> c = t \<or> c = char_of ((of_char t :: nat) - 32)"
proof -
  let ?n = "of_char c :: nat" and ?m = "of_char t :: nat"
  have c: "c = char_of ?n" by simp
  show ?thesis
  proof (cases "65 \<le> ?n \<and> ?n \<le> 90")
    case True
    then have l: "lower_char c = char_of (?n + 32)" by (simp add: lower_char_def Let_def)
    have "char_of (?n + 32) = t \<longleftrightarrow> ?n + 32 = ?m"
    proof
      assume "char_of (?n + 32) = t"
      then have "(of_char (char_of (?n + 32) :: char) :: nat) = ?m" by simp
      then have "(?n + 32) mod 256 = ?m" by simp
      with True show "?n + 32 = ?m" by simp
    next
      assume "?n + 32 = ?m"
      then show "char_of (?n + 32) = t" by simp
    qed
    moreover have "c = char_of (?m - 32) \<longleftrightarrow> ?n = ?m - 32"
    proof
      assume "c = char_of (?m - 32)"
      then have "?n = (of_char (char_of (?m - 32) :: char) :: nat)" by simp
      also have "\<dots> = (?m - 32) mod 256" by simp
      also have "\<dots> = ?m - 32" using assms by simp
      finally show "?n = ?m - 32" .
    next
      assume "?n = ?m - 32"
      then have "char_of ?n = (char_of (?m - 32) :: char)" by simp
      then show "c = char_of (?m - 32)" by simp
    qed
    moreover have "c \<noteq> t" using True assms by auto
    ultimately show ?thesis using l assms by auto
  next
    case False
    then have l: "lower_char c = c" by (auto simp: lower_char_def Let_def)
    have "c \<noteq> char_of (?m - 32)"
    proof
      assume "c = char_of (?m - 32)"
      then have "?n = (of_char (char_of (?m - 32) :: char) :: nat)" by simp
      also have "\<dots> = (?m - 32) mod 256" by simp
      also have "\<dots> = ?m - 32" using assms by simp
      finally show False using False assms by arith
    qed
    with l show ?thesis by auto
  qed
qed

lemma lower_char_y: "lower_char c = CHR ''y'' \<longleftrightarrow> c = CHR ''y'' \<or> c = CHR ''Y''"
proof -
  have "(char_of (89 :: nat) :: char) = CHR ''Y''"
    by (rule of_char_eqI [where ?'a = nat]) simp
  with lower_char_eq_lower [of "CHR ''y''" c] show ?thesis by simp
qed

lemma py_lower_y: "py_lower s = ''y'' \<longleftrightarrow> s = ''y'' \<or> s = ''Y''"
  by (cases s) (auto simp: py_lower_def lower_char_y)

lemma lower_char_d: "lower_char c = CHR ''d'' \<longleftrightarrow> c = CHR ''d'' \<or> c = CHR ''D''"
proof -
  have "(char_of (68 :: nat) :: char) = CHR ''D''"
    by (rule of_char_eqI [where ?'a = nat]) simp
  with lower_char_eq_lower [of "CHR ''d''" c] show ?thesis by simp
qed

lemma lower_char_m: "lower_char c = CHR ''m'' \<longleftrightarrow> c = CHR ''m'' \<or> c = CHR ''M''"
proof -
  have "(char_of (77 :: nat) :: char) = CHR ''M''"
    by (rule of_char_eqI [where ?'a = nat]) simp
  with lower_char_eq_lower [of "CHR ''m''" c] show ?thesis by simp
qed

lemma lower_char_q: "lower_char c = CHR ''q'' \<longleftrightarrow> c = CHR ''q'' \<or> c = CHR ''Q''"
proof -
  have "(char_of (81 :: nat) :: char) = CHR ''Q''"
    by (rule of_char_eqI [where ?'a = nat]) simp
  with lower_char_eq_lower [of "CHR ''q''" c] show ?thesis by simp
qed


lemma lower_char_a: "lower_char c = CHR ''a'' \<longleftrightarrow> c = CHR ''a'' \<or> c = CHR ''A''"
proof -
  have "(char_of (65 :: nat) :: char) = CHR ''A''"
    by (rule of_char_eqI [where ?'a = nat]) simp
  with lower_char_eq_lower [of "CHR ''a''" c] show ?thesis by simp
qed

lemma lower_char_n: "lower_char c = CHR ''n'' \<longleftrightarrow> c = CHR ''n'' \<or> c = CHR ''N''"
proof -
  have "(char_of (78 :: nat) :: char) = CHR ''N''"
    by (rule of_char_eqI [where ?'a = nat]) simp
  with lower_char_eq_lower [of "CHR ''n''" c] show ?thesis by simp
qed

lemma py_lower_single:
  "py_lower [c] = ''a'' \<longleftrightarrow> c = CHR ''a'' \<or> c = CHR ''A''"
  "py_lower [c] = ''n'' \<longleftrightarrow> c = CHR ''n'' \<or> c = CHR ''N''"
  "py_lower [c] = ''q'' \<longleftrightarrow> c = CHR ''q'' \<or> c = CHR ''Q''"
  "py_lower [c] = ''d'' \<longleftrightarrow> c = CHR ''d'' \<or> c = CHR ''D''"
  "py_lower [c] = ''m'' \<longleftrightarrow> c = CHR ''m'' \<or> c = CHR ''M''"
  by (simp_all add: py_lower_def lower_char_a lower_char_n lower_char_q lower_char_d lower_char_m)

section \<open>The main function\<close>

lemma interactive_select_frame:
  "interactive_select options w = (outcome, w1) \<Longrightarrow>
     disk w1 = disk w \<and> stdin_lines w1 = stdin_lines w \<and> printed w1 = printed w"
  by (auto simp: interactive_select_def split: prod.splits)

lemma move_to_archive_lines:
  "move_to_archive rt files folder w = (r, w') \<Longrightarrow> stdin_lines w' = stdin_lines w"
  by (auto simp: move_to_archive_def move_files_frame split: if_splits prod.splits option.splits)

text \<open>One run of the disposition workflow.\<close>

lemma disposition_cases:
  assumes "disposition rt app archive unused w = (flow, w')"
  shows "(disk w' = disk w \<and> suffix (stdin_lines w') (stdin_lines w)) \<or>
         (\<exists>confirm final. stdin_lines w = confirm # final # stdin_lines w' \<and>
            py_lower confirm = ''y'' \<and> py_lower final = ''y'')"
proof -
  let ?options = "map (\<lambda>file. relpath rt file app) (set_iter rt unused)"
  obtain outcome w1 where sel: "interactive_select ?options (say [Time_to_decide] w) = (outcome, w1)"
    by (cases "interactive_select ?options (say [Time_to_decide] w)")
  from interactive_select_frame [OF sel]
  have w1: "disk w1 = disk w" "stdin_lines w1 = stdin_lines w" by (simp_all add: say_def)
  show ?thesis
  proof (cases outcome)
    case (Waiting st)
    with assms sel w1 show ?thesis by (auto simp: disposition_def Let_def say_def)
  next
    case (Raised e)
    with assms sel w1 show ?thesis by (auto simp: disposition_def Let_def say_def)
  next
    case (Returned result)
    show ?thesis
    proof (cases result)
      case None
      with Returned assms sel w1 show ?thesis by (auto simp: disposition_def Let_def say_def)
    next
      case (Some pair)
      obtain selected_files action where pair: "pair = (selected_files, action)" by (cases pair)
      let ?files = "map (\<lambda>file. path_join rt app file) selected_files"
      show ?thesis
      proof (cases "selected_files = []")
        case True
        with Some pair Returned assms sel w1 show ?thesis by (auto simp: disposition_def Let_def say_def)
      next
        case False
        note nonempty = this
        show ?thesis
        proof (cases "stdin_lines w")
          case Nil
          with nonempty Some pair Returned assms sel w1 show ?thesis
            by (auto simp: disposition_def Let_def say_def input_def)
        next
          case (Cons confirm rest)
          note first = this
          show ?thesis
          proof (cases "py_lower confirm = ''y''")
            case False
            with first nonempty Some pair Returned assms sel w1 show ?thesis
              by (auto simp: disposition_def Let_def say_def input_def suffix_def)
          next
            case True
            note yes1 = this
            show ?thesis
            proof (cases rest)
              case Nil
              with yes1 first nonempty Some pair Returned assms sel w1 show ?thesis
                by (cases action) (auto simp: disposition_def Let_def say_def input_def suffix_def)
            next
              case (Cons final rest')
              note second = this
              show ?thesis
              proof (cases "py_lower final = ''y''")
                case False
                with second yes1 first nonempty Some pair Returned assms sel w1 show ?thesis
                  by (cases action) (auto simp: disposition_def Let_def say_def input_def suffix_def)
              next
                case True
                show ?thesis
                proof (cases action)
                  case Delete
                  with True second yes1 first nonempty Some pair Returned assms sel w1
                  show ?thesis
                    by (auto simp: disposition_def Let_def say_def input_def delete_files_frame)
                next
                  case Archive
                  let ?w3 = "w1\<lparr>printed := printed w1 @
                      [Files_selected Archive ?files, Prompt_confirm Archive] @
                      [Archive_preview archive, Prompt_final Archive],
                      stdin_lines := rest'\<rparr>"
                  obtain r w4 where mv: "move_to_archive rt ?files archive
                      (w1\<lparr>printed := printed w1 @
                          [Files_selected Archive ?files, Prompt_confirm Archive,
                           Archive_preview archive, Prompt_final Archive],
                         stdin_lines := rest'\<rparr>) = (r, w4)"
                    by (cases "move_to_archive rt ?files archive
                      (w1\<lparr>printed := printed w1 @
                          [Files_selected Archive ?files, Prompt_confirm Archive,
                           Archive_preview archive, Prompt_final Archive],
                         stdin_lines := rest'\<rparr>)")
                  from move_to_archive_lines [OF mv] have "stdin_lines w4 = rest'" by simp
                  with mv Archive True second yes1 first nonempty Some pair Returned assms sel w1
                  show ?thesis
                    by (cases r) (auto simp: disposition_def Let_def say_def input_def)
                qed
              qed
            qed
          qed
        qed
      qed
    qed
  qed
qed


lemma main_body_cases:
  assumes "main_body rt cfg dry_run w = (flow, w')"
  shows "(disk w' = disk w \<and> suffix (stdin_lines w') (stdin_lines w)) \<or>
         (\<exists>confirm final. stdin_lines w = confirm # final # stdin_lines w' \<and>
            py_lower confirm = ''y'' \<and> py_lower final = ''y'')"
  using assms
  by (auto simp: main_body_def Let_def say_def
      split: sum.splits prod.splits if_splits flow.splits dest!: disposition_cases)

lemma main_cases:
  "main depth rt cfg name dry_run w = (flow, w') \<Longrightarrow>
     (disk w' = disk w \<and> suffix (stdin_lines w') (stdin_lines w)) \<or>
     (\<exists>before confirm final rest. stdin_lines w = before @ confirm # final # rest \<and>
        py_lower confirm = ''y'' \<and> py_lower final = ''y'')"
proof (induction depth arbitrary: w)
  case 0
  then show ?case by auto
next
  case (Suc depth)
  obtain f w1 where body: "main_body rt cfg dry_run w = (f, w1)"
    by (cases "main_body rt cfg dry_run w")
  from main_body_cases [OF body] consider
    (same) "disk w1 = disk w" "suffix (stdin_lines w1) (stdin_lines w)"
    | (changed) confirm final where "stdin_lines w = confirm # final # stdin_lines w1"
        "py_lower confirm = ''y''" "py_lower final = ''y''"
    by blast
  then show ?case
  proof cases
    case changed
    then have "stdin_lines w = [] @ confirm # final # stdin_lines w1" by simp
    with changed show ?thesis by blast
  next
    case same
    show ?thesis
    proof (cases "f = Falls_through \<and> name = ''__main__''")
      case False
      with Suc.prems body have "w' = w1" by (cases f) (auto split: if_splits)
      with same show ?thesis by simp
    next
      case True
      with Suc.prems body have rec: "main depth rt cfg name dry_run w1 = (flow, w')" by simp
      from Suc.IH [OF rec] consider
        (same') "disk w' = disk w1" "suffix (stdin_lines w') (stdin_lines w1)"
        | (changed') before confirm final rest where
            "stdin_lines w1 = before @ confirm # final # rest"
            "py_lower confirm = ''y''" "py_lower final = ''y''"
        by blast
      then show ?thesis
      proof cases
        case same'
        with same show ?thesis by (auto intro: suffix_order.trans)
      next
        case changed'
        from same(2) obtain zs where "stdin_lines w = zs @ stdin_lines w1"
          by (auto simp: suffix_def)
        with changed'(1) have "stdin_lines w = (zs @ before) @ confirm # final # rest" by simp
        with changed'(2,3) show ?thesis by blast
      qed
    qed
  qed
qed


text \<open>What has been printed stays printed.\<close>

lemma say_simps [simp]:
  "printed (say es w) = printed w @ es" "disk (say es w) = disk w"
  "stdin_lines (say es w) = stdin_lines w" "stdin_keys (say es w) = stdin_keys w"
  by (simp_all add: say_def)

lemma input_frame:
  "input w = (r, w') \<Longrightarrow> printed w' = printed w \<and> disk w' = disk w \<and> stdin_keys w' = stdin_keys w"
  by (auto simp: input_def split: list.splits)

lemma prefix_say: "prefix xs (printed w) \<Longrightarrow> prefix xs (printed (say es w))"
  by (auto simp: prefix_def)

lemma prefix_delete_files:
  "prefix xs (printed w) \<Longrightarrow> prefix xs (printed (delete_files rt files w))"
  using delete_files_reports [of rt files w] by (auto simp: prefix_def)

lemma prefix_move_to_archive:
  "move_to_archive rt files folder w = (r, w') \<Longrightarrow> prefix xs (printed w) \<Longrightarrow>
     prefix xs (printed w')"
  using move_files_reports [of rt folder files w]
    move_files_reports [of rt folder files "w\<lparr>disk := snd (os_makedirs rt (disk w) folder)\<rparr>"]
  by (auto simp: move_to_archive_def prefix_def split: if_splits prod.splits option.splits)

lemma disposition_printed:
  assumes "disposition rt app archive unused w = (flow, w')"
  shows "prefix (printed w) (printed w')"
  using assms
  by (auto simp: disposition_def Let_def
      split: select_outcome.splits option.splits action.splits if_splits prod.splits
      dest!: interactive_select_frame input_frame
      intro!: prefix_say prefix_delete_files
      elim!: prefix_move_to_archive)

lemma main_body_printed:
  assumes "main_body rt cfg dry_run w = (flow, w')"
  shows "prefix (printed w @ [Main_banner (path_join rt (getcwd rt) (ARCHIVE_FOLDER cfg))])
           (printed w')"
  using assms
  by (auto simp: main_body_def Let_def prefix_def
      split: sum.splits prod.splits if_splits flow.splits dest!: disposition_printed)

lemma main_printed:
  "main (Suc depth) rt cfg name dry_run w = (flow, w') \<Longrightarrow>
     prefix (printed w @ [Main_banner (path_join rt (getcwd rt) (ARCHIVE_FOLDER cfg))])
       (printed w')"
proof (induction depth arbitrary: w flow w')
  case 0
  then show ?case
    by (auto split: prod.splits flow.splits if_splits dest: main_body_printed)
next
  case (Suc depth)
  obtain f w1 where body: "main_body rt cfg dry_run w = (f, w1)"
    by (cases "main_body rt cfg dry_run w")
  note p1 = main_body_printed [OF body]
  show ?case
  proof (cases "f = Falls_through \<and> name = ''__main__''")
    case False
    with Suc.prems body have "w' = w1" by (cases f) (auto split: if_splits)
    with p1 show ?thesis by simp
  next
    case True
    with Suc.prems body have "main (Suc depth) rt cfg name dry_run w1 = (flow, w')" by simp
    from Suc.IH [OF this] have "prefix (printed w1) (printed w')"
      by (auto simp: prefix_def)
    with p1 show ?thesis by (rule prefix_order.trans)
  qed
qed

lemma press_quit:
  "c \<in> {CHR ''q'', CHR ''Q''} \<Longrightarrow> press options [c] st = Return None"
  by (auto simp: press_def py_lower_single)

lemma chosen_none:
  assumes "length sel = length options" "\<forall>b \<in> set sel. \<not> b"
  shows "chosen options sel = Inr []"
proof -
  have no: "\<not> sel ! i" if "i < length options" for i
  proof -
    from that assms(1) have "sel ! i \<in> set sel" by (simp only: nth_mem)
    with assms(2) show ?thesis by blast
  qed
  have "[options ! i. i \<leftarrow> [0 ..< length options], sel ! i] = []"
    unfolding concat_eq_Nil_conv using no by auto
  with assms(1) show ?thesis by (simp only: chosen_def less_irrefl if_False)
qed

lemma press_delete_none:
  assumes "length (selected st) = length options" "\<forall>b \<in> set (selected st). \<not> b"
    and "c \<in> {CHR ''d'', CHR ''D''}"
  shows "press options [c] st = Return (Some ([], Delete))"
  using assms(3) chosen_none [OF assms(1,2)]
  by (auto simp: press_def py_lower_single)

lemma press_archive_none:
  assumes "length (selected st) = length options" "\<forall>b \<in> set (selected st). \<not> b"
    and "c \<in> {CHR ''m'', CHR ''M''}"
  shows "press options [c] st = Return (Some ([], Archive))"
  using assms(3) chosen_none [OF assms(1,2)]
  by (auto simp: press_def py_lower_single)

lemma disposition_quit:
  assumes "select_loop (map (\<lambda>file. relpath rt file app) (set_iter rt unused))
      (initial_menu_state (map (\<lambda>file. relpath rt file app) (set_iter rt unused)))
      (stdin_keys w) = (Returned None, keys')"
  shows "disposition rt app archive unused w =
        (Returns, w\<lparr>stdin_keys := keys',
                    printed := printed w @ [Time_to_decide, Operation_cancelled]\<rparr>)"
  using assms by (simp add: disposition_def interactive_select_def say_def)


section \<open>Claims about the disposition workflow\<close>

text \<open>
  C8: the file system changes only after two affirmative answers. If one run of the body
  of \<^verbatim>\<open>main\<close> ends with a file system different from the one it started with, then the
  two lines it read were both \<^verbatim>\<open>y\<close> or \<^verbatim>\<open>Y\<close>; so a missing or non-affirmative answer at
  either confirmation leaves the file system as it was. Through the calls of \<^verbatim>\<open>main\<close> by
  itself the same holds of two consecutive lines. The quit key makes
  \<^verbatim>\<open>interactive_select\<close> return \<^verbatim>\<open>None\<close>, and then the workflow prints that the operation is
  cancelled and returns, with the file system and the pending lines untouched.
\<close>

theorem no_mutation_without_two_confirmations:
  "(main_body rt cfg dry_run w = (flow, w') \<and> disk w' \<noteq> disk w \<longrightarrow>
      (\<exists>confirm final. stdin_lines w = confirm # final # stdin_lines w' \<and>
         confirm \<in> {''y'', ''Y''} \<and> final \<in> {''y'', ''Y''})) \<and>
   (main depth rt cfg name dry_run w = (flow, w') \<and> disk w' \<noteq> disk w \<longrightarrow>
      (\<exists>before confirm final rest. stdin_lines w = before @ confirm # final # rest \<and>
         confirm \<in> {''y'', ''Y''} \<and> final \<in> {''y'', ''Y''})) \<and>
   (c \<in> {CHR ''q'', CHR ''Q''} \<longrightarrow> select_loop options st (c # ks) = (Returned None, ks)) \<and>
   (select_loop (map (\<lambda>file. relpath rt file app) (set_iter rt unused))
      (initial_menu_state (map (\<lambda>file. relpath rt file app) (set_iter rt unused)))
      (stdin_keys w) = (Returned None, keys') \<longrightarrow>
      disposition rt app archive unused w =
        (Returns, w\<lparr>stdin_keys := keys',
                    printed := printed w @ [Time_to_decide, Operation_cancelled]\<rparr>))"
proof (intro conjI impI)
  assume "main_body rt cfg dry_run w = (flow, w') \<and> disk w' \<noteq> disk w"
  with main_body_cases [of rt cfg dry_run w flow w']
  show "\<exists>confirm final. stdin_lines w = confirm # final # stdin_lines w' \<and>
         confirm \<in> {''y'', ''Y''} \<and> final \<in> {''y'', ''Y''}"
    by (auto simp: py_lower_y)
next
  assume "main depth rt cfg name dry_run w = (flow, w') \<and> disk w' \<noteq> disk w"
  with main_cases [of depth rt cfg name dry_run w flow w']
  show "\<exists>before confirm final rest. stdin_lines w = before @ confirm # final # rest \<and>
         confirm \<in> {''y'', ''Y''} \<and> final \<in> {''y'', ''Y''}"
    by (auto simp: py_lower_y)
next
  assume c: "c \<in> {CHR ''q'', CHR ''Q''}"
  then have "c \<noteq> CHR 0x1B" by auto
  with press_quit [OF c] show "select_loop options st (c # ks) = (Returned None, ks)"
    by simp
next
  assume "select_loop (map (\<lambda>file. relpath rt file app) (set_iter rt unused))
      (initial_menu_state (map (\<lambda>file. relpath rt file app) (set_iter rt unused)))
      (stdin_keys w) = (Returned None, keys')"
  then show "disposition rt app archive unused w =
        (Returns, w\<lparr>stdin_keys := keys',
                    printed := printed w @ [Time_to_decide, Operation_cancelled]\<rparr>)"
    by (rule disposition_quit)
qed

lemma demo_main_archive:
  "main 3 demo_rt DEFAULT_CONFIG ''PyClutterCutter'' False (demo_world ''am'' [''y'', ''Y'']) =
     (Returns, demo_archived)"
  by code_simp

lemma demo_main_body_archive:
  "main_body demo_rt DEFAULT_CONFIG False (demo_world ''am'' [''y'', ''Y'']) =
     (Falls_through, demo_archived)"
  by code_simp

lemma demo_quit_loop:
  "select_loop (map (\<lambda>file. relpath demo_rt file ''/proj'')
                  (set_iter demo_rt {''/proj/unrelated.py'', ''/proj/big.py''}))
     (initial_menu_state (map (\<lambda>file. relpath demo_rt file ''/proj'')
                            (set_iter demo_rt {''/proj/unrelated.py'', ''/proj/big.py''})))
     (stdin_keys (demo_world ''Qx'' [''y''])) = (Returned None, ''x'')"
  by code_simp

theorem no_mutation_without_two_confirmations_witness:
  "main 3 demo_rt DEFAULT_CONFIG ''PyClutterCutter'' False (demo_world ''am'' [''y'', ''Y'']) =
     (Returns, demo_archived) \<and>
   main_body demo_rt DEFAULT_CONFIG False (demo_world ''am'' [''y'', ''Y'']) =
     (Falls_through, demo_archived) \<and>
   disk demo_archived \<noteq> disk (demo_world ''am'' [''y'', ''Y'']) \<and>
   (\<exists>confirm final. stdin_lines (demo_world ''am'' [''y'', ''Y'']) =
        confirm # final # stdin_lines demo_archived \<and>
      confirm \<in> {''y'', ''Y''} \<and> final \<in> {''y'', ''Y''}) \<and>
   (\<exists>before confirm final rest. stdin_lines (demo_world ''am'' [''y'', ''Y'']) =
        before @ confirm # final # rest \<and>
      confirm \<in> {''y'', ''Y''} \<and> final \<in> {''y'', ''Y''}) \<and>
   select_loop [''a.py''] (initial_menu_state [''a.py'']) (CHR ''Q'' # ''d'') =
     (Returned None, ''d'') \<and>
   disposition demo_rt ''/proj'' ''/proj/Guido_Gallery''
     {''/proj/unrelated.py'', ''/proj/big.py''} (demo_world ''Qx'' [''y'']) =
     (Returns, (demo_world ''Qx'' [''y''])
                 \<lparr>stdin_keys := ''x'', printed := [Time_to_decide, Operation_cancelled]\<rparr>)"
proof -
  have ne: "disk demo_archived \<noteq> disk (demo_world ''am'' [''y'', ''Y''])"
    by (simp add: demo_archived_def demo_world_def demo_disk_def)
  note t = no_mutation_without_two_confirmations
  from t [of demo_rt DEFAULT_CONFIG False "demo_world ''am'' [''y'', ''Y'']" Falls_through
      demo_archived, THEN conjunct1] demo_main_body_archive ne
  have 1: "\<exists>confirm final. stdin_lines (demo_world ''am'' [''y'', ''Y'']) =
        confirm # final # stdin_lines demo_archived \<and>
      confirm \<in> {''y'', ''Y''} \<and> final \<in> {''y'', ''Y''}"
    by blast
  from t [of demo_rt DEFAULT_CONFIG False "demo_world ''am'' [''y'', ''Y'']" Returns
      demo_archived 3 "''PyClutterCutter''", THEN conjunct2, THEN conjunct1] demo_main_archive ne
  have 2: "\<exists>before confirm final rest. stdin_lines (demo_world ''am'' [''y'', ''Y'']) =
        before @ confirm # final # rest \<and>
      confirm \<in> {''y'', ''Y''} \<and> final \<in> {''y'', ''Y''}"
    by blast
  from t [where c = "CHR ''Q''" and options = "[''a.py'']"
      and st = "initial_menu_state [''a.py'']" and ks = "''d''",
      THEN conjunct2, THEN conjunct2, THEN conjunct1]
  have 3: "select_loop [''a.py''] (initial_menu_state [''a.py'']) (CHR ''Q'' # ''d'') =
     (Returned None, ''d'')"
    by blast
  from t [where rt = demo_rt and app = "''/proj''"
      and unused = "{''/proj/unrelated.py'', ''/proj/big.py''}"
      and w = "demo_world ''Qx'' [''y'']" and keys' = "''x''"
      and archive = "''/proj/Guido_Gallery''",
      THEN conjunct2, THEN conjunct2, THEN conjunct2] demo_quit_loop
  have 4: "disposition demo_rt ''/proj'' ''/proj/Guido_Gallery''
     {''/proj/unrelated.py'', ''/proj/big.py''} (demo_world ''Qx'' [''y'']) =
     (Returns, (demo_world ''Qx'' [''y''])
                 \<lparr>stdin_keys := ''x'', printed := [Time_to_decide, Operation_cancelled]\<rparr>)"
    by (simp add: demo_world_def)
  from demo_main_archive demo_main_body_archive ne 1 2 3 4 show ?thesis by blast
qed


text \<open>
  C10: when the delete key or the archive key is pressed while no option is selected,
  \<^verbatim>\<open>interactive_select\<close> returns the empty list with the action. When it returns an empty
  selection, \<^verbatim>\<open>main\<close> returns at once, whatever \<^verbatim>\<open>__name__\<close> is: it has printed its
  reports and that no files are selected, it has asked for no confirmation and read no
  line, and the file system is the one it started with.
\<close>

theorem empty_selection_returns_immediately:
  "(length (selected st) = length options \<and> (\<forall>b \<in> set (selected st). \<not> b) \<longrightarrow>
      (c \<in> {CHR ''d'', CHR ''D''} \<longrightarrow>
         select_loop options st (c # ks) = (Returned (Some ([], Delete)), ks)) \<and>
      (c \<in> {CHR ''m'', CHR ''M''} \<longrightarrow>
         select_loop options st (c # ks) = (Returned (Some ([], Archive)), ks))) \<and>
   (find_unused_files rt cfg (disk w) (getcwd rt) = Inr (unused, problematic, large, inventory) \<and>
    unused \<noteq> {} \<and> \<not> dry_run \<and>
    select_loop (map (\<lambda>file. relpath rt file (getcwd rt)) (set_iter rt unused))
      (initial_menu_state (map (\<lambda>file. relpath rt file (getcwd rt)) (set_iter rt unused)))
      (stdin_keys w) = (Returned (Some ([], action)), keys') \<longrightarrow>
      (\<exists>evs. main (Suc depth) rt cfg name dry_run w =
                (Returns, w\<lparr>stdin_keys := keys',
                            printed := printed w @ evs @ [Time_to_decide, No_files_selected]\<rparr>) \<and>
              (\<forall>a. Prompt_confirm a \<notin> set evs \<and> Prompt_final a \<notin> set evs)))"
proof (intro conjI impI)
  assume a: "length (selected st) = length options \<and> (\<forall>b \<in> set (selected st). \<not> b)"
    and c: "c \<in> {CHR ''d'', CHR ''D''}"
  from c have "c \<noteq> CHR 0x1B" by auto
  moreover from a have "press options [c] st = Return (Some ([], Delete))"
    by (intro press_delete_none c) blast+
  ultimately show "select_loop options st (c # ks) = (Returned (Some ([], Delete)), ks)"
    by simp
next
  assume a: "length (selected st) = length options \<and> (\<forall>b \<in> set (selected st). \<not> b)"
    and c: "c \<in> {CHR ''m'', CHR ''M''}"
  from c have "c \<noteq> CHR 0x1B" by auto
  moreover from a have "press options [c] st = Return (Some ([], Archive))"
    by (intro press_archive_none c) blast+
  ultimately show "select_loop options st (c # ks) = (Returned (Some ([], Archive)), ks)"
    by simp
next
  assume a: "find_unused_files rt cfg (disk w) (getcwd rt) =
      Inr (unused, problematic, large, inventory) \<and>
    unused \<noteq> {} \<and> \<not> dry_run \<and>
    select_loop (map (\<lambda>file. relpath rt file (getcwd rt)) (set_iter rt unused))
      (initial_menu_state (map (\<lambda>file. relpath rt file (getcwd rt)) (set_iter rt unused)))
      (stdin_keys w) = (Returned (Some ([], action)), keys')"
  let ?evs = "[Main_banner (path_join rt (getcwd rt) (ARCHIVE_FOLDER cfg))] @
      map (\<lambda>(file_path, msg). Error_processing file_path msg)
        (find_unused_files_output rt cfg (disk w) (getcwd rt)) @
      [Report_unused unused] @
      (if problematic \<noteq> {} then [Report_problematic problematic] else []) @
      (if large \<noteq> {} then [Report_large large] else []) @
      [Disclaimer]"
  have 1: "\<forall>a. Prompt_confirm a \<notin> set ?evs \<and> Prompt_final a \<notin> set ?evs"
    by auto
  have 2: "main_body rt cfg dry_run w =
      (Returns, w\<lparr>stdin_keys := keys',
                  printed := printed w @ ?evs @ [Time_to_decide, No_files_selected]\<rparr>)"
    using a by (simp add: main_body_def disposition_def interactive_select_def say_def Let_def)
  then have "main (Suc depth) rt cfg name dry_run w =
      (Returns, w\<lparr>stdin_keys := keys',
                  printed := printed w @ ?evs @ [Time_to_decide, No_files_selected]\<rparr>)"
    by simp
  with 1 show "\<exists>evs. main (Suc depth) rt cfg name dry_run w =
                (Returns, w\<lparr>stdin_keys := keys',
                            printed := printed w @ evs @ [Time_to_decide, No_files_selected]\<rparr>) \<and>
              (\<forall>a. Prompt_confirm a \<notin> set evs \<and> Prompt_final a \<notin> set evs)"
    by blast
qed

lemma demo_find_unused_files_world:
  "find_unused_files demo_rt DEFAULT_CONFIG (disk (demo_world ''d'' [''y'', ''y'']))
     (getcwd demo_rt) =
     Inr ({''/proj/unrelated.py'', ''/proj/big.py'', ''/proj/edge.py''},
          {(''broken'', ''cannot import broken'')},
          {''/proj/big.py''},
          demo_inventory)"
  by code_simp

lemma demo_delete_loop:
  "select_loop
     (map (\<lambda>file. relpath demo_rt file (getcwd demo_rt))
        (set_iter demo_rt {''/proj/unrelated.py'', ''/proj/big.py'', ''/proj/edge.py''}))
     (initial_menu_state
        (map (\<lambda>file. relpath demo_rt file (getcwd demo_rt))
           (set_iter demo_rt {''/proj/unrelated.py'', ''/proj/big.py'', ''/proj/edge.py''})))
     (stdin_keys (demo_world ''d'' [''y'', ''y''])) = (Returned (Some ([], Delete)), [])"
  by code_simp

lemma demo_main_nothing_selected:
  "main 1 demo_rt DEFAULT_CONFIG ''__main__'' False (demo_world ''d'' [''y'', ''y'']) =
     (Returns, (demo_world ''d'' [''y'', ''y''])
                 \<lparr>stdin_keys := [],
                  printed := demo_reports @ [Time_to_decide, No_files_selected]\<rparr>)"
  by code_simp

theorem empty_selection_returns_immediately_witness:
  "select_loop [''a.py'', ''b.py''] (initial_menu_state [''a.py'', ''b.py'']) (CHR ''M'' # ''y'') =
     (Returned (Some ([], Archive)), ''y'') \<and>
   (\<exists>evs. main 1 demo_rt DEFAULT_CONFIG ''__main__'' False (demo_world ''d'' [''y'', ''y'']) =
            (Returns, (demo_world ''d'' [''y'', ''y''])
                        \<lparr>stdin_keys := [],
                         printed := printed (demo_world ''d'' [''y'', ''y'']) @ evs @
                                      [Time_to_decide, No_files_selected]\<rparr>) \<and>
          (\<forall>a. Prompt_confirm a \<notin> set evs \<and> Prompt_final a \<notin> set evs)) \<and>
   main 1 demo_rt DEFAULT_CONFIG ''__main__'' False (demo_world ''d'' [''y'', ''y'']) =
     (Returns, (demo_world ''d'' [''y'', ''y''])
                 \<lparr>stdin_keys := [],
                  printed := demo_reports @ [Time_to_decide, No_files_selected]\<rparr>)"
proof -
  note t = empty_selection_returns_immediately
  have init: "length (selected (initial_menu_state [''a.py'', ''b.py''])) =
        length [''a.py'', ''b.py''] \<and>
      (\<forall>b \<in> set (selected (initial_menu_state [''a.py'', ''b.py''])). \<not> b)"
    by (simp add: initial_menu_state_def)
  from t [where st = "initial_menu_state [''a.py'', ''b.py'']"
      and options = "[''a.py'', ''b.py'']" and c = "CHR ''M''" and ks = "''y''",
      THEN conjunct1] init
  have 1: "select_loop [''a.py'', ''b.py''] (initial_menu_state [''a.py'', ''b.py''])
      (CHR ''M'' # ''y'') = (Returned (Some ([], Archive)), ''y'')"
    by blast
  have ne: "{''/proj/unrelated.py'', ''/proj/big.py'', ''/proj/edge.py''} \<noteq> ({} :: path set)"
    by simp
  from t [where rt = demo_rt and cfg = DEFAULT_CONFIG and w = "demo_world ''d'' [''y'', ''y'']"
      and unused = "{''/proj/unrelated.py'', ''/proj/big.py'', ''/proj/edge.py''}"
      and problematic = "{(''broken'', ''cannot import broken'')}"
      and large = "{''/proj/big.py''}" and inventory = demo_inventory
      and dry_run = False and action = Delete and keys' = "[]" and depth = 0
      and name = "''__main__''",
      THEN conjunct2] demo_find_unused_files_world demo_delete_loop ne
  have 2: "\<exists>evs. main 1 demo_rt DEFAULT_CONFIG ''__main__'' False (demo_world ''d'' [''y'', ''y'']) =
            (Returns, (demo_world ''d'' [''y'', ''y''])
                        \<lparr>stdin_keys := [],
                         printed := printed (demo_world ''d'' [''y'', ''y'']) @ evs @
                                      [Time_to_decide, No_files_selected]\<rparr>) \<and>
          (\<forall>a. Prompt_confirm a \<notin> set evs \<and> Prompt_final a \<notin> set evs)"
    by simp
  from 1 2 demo_main_nothing_selected show ?thesis by blast
qed


section \<open>The module run as a script\<close>

text \<open>
  C2: running the module as a script does not call \<^verbatim>\<open>main\<close>: the guard
  \<^verbatim>\<open>if __name__ == "__main__": main()\<close> is the last statement of the body of \<^verbatim>\<open>main\<close>, so
  the top level only checks the version, prints its banner, loads the configuration and
  defines the functions. Whatever the runtime and the world, the script prints at most
  the version warning and the banner, reads nothing from the terminal and leaves the
  file system as it is. Every call of \<^verbatim>\<open>main\<close>, on the other hand, begins by printing the
  banner of \<^verbatim>\<open>main\<close>; the script never prints it, nor any report or prompt.
\<close>

theorem script_never_invokes_main:
  "(\<exists>evs. snd (run_script rt w) = w\<lparr>printed := printed w @ evs\<rparr> \<and>
          set evs \<subseteq> {Version_warning, Running_banner}) \<and>
   (main (Suc depth) rt cfg name dry_run w = (flow, w') \<longrightarrow>
      prefix (printed w @ [Main_banner (path_join rt (getcwd rt) (ARCHIVE_FOLDER cfg))])
        (printed w'))"
proof (intro conjI impI)
  show "\<exists>evs. snd (run_script rt w) = w\<lparr>printed := printed w @ evs\<rparr> \<and>
          set evs \<subseteq> {Version_warning, Running_banner}"
  proof (cases "import_failure rt")
    case (Some e)
    then show ?thesis
      by (intro exI [of _ "[]"]) (simp add: run_script_def)
  next
    case None
    show ?thesis
    proof (cases "fst (python_version rt) < 3 \<or>
        (fst (python_version rt) = 3 \<and> snd (python_version rt) < 6)")
      case True
      with None show ?thesis
        by (intro exI [of _ "[Version_warning, Running_banner]"])
          (simp add: run_script_def say_def Let_def)
    next
      case False
      with None show ?thesis
        by (intro exI [of _ "[Running_banner]"]) (simp add: run_script_def say_def Let_def)
    qed
  qed
next
  assume "main (Suc depth) rt cfg name dry_run w = (flow, w')"
  then show "prefix (printed w @ [Main_banner (path_join rt (getcwd rt) (ARCHIVE_FOLDER cfg))])
        (printed w')"
    by (rule main_printed)
qed

lemma demo_run_script:
  "run_script demo_rt (demo_world ''am'' [''y'']) =
     (Inr DEFAULT_CONFIG, (demo_world ''am'' [''y''])\<lparr>printed := [Running_banner]\<rparr>)"
  by code_simp

lemma demo_main_quit:
  "main 1 demo_rt DEFAULT_CONFIG ''__main__'' False (demo_world ''q'' []) =
     (Returns, (demo_world ''q'' [])
                 \<lparr>stdin_keys := [],
                  printed := demo_reports @ [Time_to_decide, Operation_cancelled]\<rparr>)"
  by code_simp

theorem script_never_invokes_main_witness:
  "run_script demo_rt (demo_world ''am'' [''y'']) =
     (Inr DEFAULT_CONFIG, (demo_world ''am'' [''y''])\<lparr>printed := [Running_banner]\<rparr>) \<and>
   (\<exists>evs. snd (run_script demo_rt (demo_world ''am'' [''y''])) =
            (demo_world ''am'' [''y''])
              \<lparr>printed := printed (demo_world ''am'' [''y'']) @ evs\<rparr> \<and>
          set evs \<subseteq> {Version_warning, Running_banner}) \<and>
   main 1 demo_rt DEFAULT_CONFIG ''__main__'' False (demo_world ''q'' []) =
     (Returns, (demo_world ''q'' [])
                 \<lparr>stdin_keys := [],
                  printed := demo_reports @ [Time_to_decide, Operation_cancelled]\<rparr>) \<and>
   prefix [Main_banner ''/proj/Guido_Gallery'']
     (demo_reports @ [Time_to_decide, Operation_cancelled])"
proof -
  note t = script_never_invokes_main
  from t [of demo_rt "demo_world ''am'' [''y'']", THEN conjunct1]
  have 1: "\<exists>evs. snd (run_script demo_rt (demo_world ''am'' [''y''])) =
            (demo_world ''am'' [''y''])
              \<lparr>printed := printed (demo_world ''am'' [''y'']) @ evs\<rparr> \<and>
          set evs \<subseteq> {Version_warning, Running_banner}" .
  have j: "path_join demo_rt (getcwd demo_rt) (ARCHIVE_FOLDER DEFAULT_CONFIG) =
      ''/proj/Guido_Gallery''"
    by code_simp
  from t [of demo_rt "demo_world ''q'' []" 0 DEFAULT_CONFIG "''__main__''" False Returns
      "(demo_world ''q'' [])
         \<lparr>stdin_keys := [],
          printed := demo_reports @ [Time_to_decide, Operation_cancelled]\<rparr>",
      THEN conjunct2] demo_main_quit j
  have 2: "prefix [Main_banner ''/proj/Guido_Gallery'']
     (demo_reports @ [Time_to_decide, Operation_cancelled])"
    by (simp add: demo_world_def)
  from demo_run_script 1 demo_main_quit 2 show ?thesis by blast
qed

end
